theory Spec2Isabelle
  imports Complex_Main
begin

section \<open>JavaScript strings\<close>

text \<open>
  A JavaScript string is modelled as a \<^typ>\<open>string\<close>, a list of characters; every
  character of the model is one code unit below 256.  The functions of this section are
  the methods of \<open>String.prototype\<close> that the agent calls.
\<close>

definition dquote :: char where
  "dquote = CHR 0x22"

definition squote :: char where
  "squote = CHR 0x27"

definition bquote :: char where
  "bquote = CHR 0x60"

definition backslash :: char where
  "backslash = CHR 0x5C"

text \<open>\<open>s.startsWith(p)\<close>.\<close>

fun startsWith :: "string \<Rightarrow> string \<Rightarrow> bool" where
  "startsWith s [] = True"
| "startsWith [] (p # ps) = False"
| "startsWith (c # cs) (p # ps) = (c = p \<and> startsWith cs ps)"

text \<open>\<open>s.includes(n)\<close>: the needle occurs at some position of \<open>s\<close>.\<close>

fun includes_js :: "string \<Rightarrow> string \<Rightarrow> bool" where
  "includes_js [] n = (n = [])"
| "includes_js (c # cs) n = (startsWith (c # cs) n \<or> includes_js cs n)"

text \<open>\<open>s.split('\n')\<close>: always at least one piece, the pieces hold no newline.\<close>

fun split_lines :: "string \<Rightarrow> string list" where
  "split_lines [] = [[]]"
| "split_lines (c # cs) =
     (if c = CHR 0x0A then [] # split_lines cs
      else (case split_lines cs of
              [] \<Rightarrow> [[c]]
            | l # ls \<Rightarrow> (c # l) # ls))"

text \<open>
  \<open>toUpperCase\<close> and \<open>toLowerCase\<close> on the letters \<open>a\<close> to \<open>z\<close> and \<open>A\<close> to \<open>Z\<close>;
  the other characters of the model that the agent ever converts (method names, and
  response bodies compared with ASCII patterns) are left as they are.
\<close>

definition upper_char :: "char \<Rightarrow> char" where
  "upper_char c =
     (case map_of (zip ''abcdefghijklmnopqrstuvwxyz'' ''ABCDEFGHIJKLMNOPQRSTUVWXYZ'') c of
        None \<Rightarrow> c
      | Some u \<Rightarrow> u)"

definition lower_char :: "char \<Rightarrow> char" where
  "lower_char c =
     (case map_of (zip ''ABCDEFGHIJKLMNOPQRSTUVWXYZ'' ''abcdefghijklmnopqrstuvwxyz'') c of
        None \<Rightarrow> c
      | Some l \<Rightarrow> l)"

definition toUpperCase :: "string \<Rightarrow> string" where
  "toUpperCase s = map upper_char s"

definition toLowerCase :: "string \<Rightarrow> string" where
  "toLowerCase s = map lower_char s"

section \<open>The two structural acceptance gates\<close>

text \<open>
  \<open>TestAnalyzer.isValidTestCode\<close>: the gate of the remediation loop.
\<close>

definition isValidTestCode :: "string \<Rightarrow> bool" where
  "isValidTestCode code =
     (includes_js code ''@playwright/test'' \<and>
      (includes_js code ''test('' \<or> includes_js code ''test.describe'') \<and>
      includes_js code ''request'')"

text \<open>
  \<open>TestGenerator.mergeTestCode\<close>: the generated code replaces the template when
  the condition of its \<open>if\<close>, here \<open>looksComplete\<close>, holds.
\<close>

definition looksComplete :: "string \<Rightarrow> bool" where
  "looksComplete aiCode =
     (includes_js aiCode ''test('' \<and> includes_js aiCode ''@playwright/test'')"

definition mergeTestCode :: "string \<Rightarrow> string \<Rightarrow> string" where
  "mergeTestCode template aiCode = (if looksComplete aiCode then aiCode else template)"

section \<open>The remediation loop (class TestAnalyzer)\<close>

text \<open>
  \<open>TestResult\<close> and \<open>TestRunResults\<close> of the runner.  The counters of a run are
  named \<open>numPassed\<close>, \<open>numFailed\<close> and \<open>numTotal\<close> here, since \<open>passed\<close> is
  already the flag of one result.
\<close>

record TestResult =
  testFile :: string
  passed :: bool
  error :: "string option"
  duration :: "int option"
  endpoint :: "string option"

record TestRunResults =
  numPassed :: int
  numFailed :: int
  numTotal :: int
  results :: "TestResult list"

datatype Severity = low | medium | high | critical

datatype IssueType = failure | security | performance | error_type

record Issue =
  issueTestFile :: string
  issueEndpoint :: "string option"
  issueSeverity :: Severity
  issueType :: IssueType
  message :: string
  suggestion :: "string option"

record AnalysisResult =
  totalTests :: int
  passedTests :: int
  failedTests :: int
  fixedTests :: nat
  issues :: "Issue list"

text \<open>
  What the loop talks to.  \<open>files\<close> is the file system as \<open>readFile\<close> sees it (the
  content, or the message of the error it throws), \<open>writable\<close> tells whether
  \<open>writeFile\<close> succeeds, and \<open>backend k code err\<close> is what the \<open>k\<close>-th call of
  \<open>OllamaClient.analyzeFailure\<close> returns for the test code and the error message it is
  sent, \<open>None\<close> when the call throws.  \<open>generated\<close> counts the calls made so far.
\<close>

record world =
  files :: "string \<Rightarrow> string + string"
  writable :: "string \<Rightarrow> bool"
  backend :: "nat \<Rightarrow> string \<Rightarrow> string \<Rightarrow> string option"
  generated :: nat

record FixResult =
  fixed :: bool
  reason :: "string option"

definition maxRetries :: nat where
  "maxRetries = 3"

text \<open>
  The \<open>for\<close> loop of \<open>attemptFix\<close>, from \<open>attempt\<close> on.  An exception of the
  backend or of \<open>writeFile\<close> is caught inside the loop, which goes on to the next
  attempt.
\<close>

function fixLoop :: "world \<Rightarrow> TestResult \<Rightarrow> string \<Rightarrow> string \<Rightarrow> nat \<Rightarrow> FixResult \<times> world" where
  "fixLoop w tr testCode err attempt =
     (if attempt \<le> maxRetries then
        (let w1 = w\<lparr>generated := generated w + 1\<rparr> in
         case backend w (generated w) testCode err of
           None \<Rightarrow> fixLoop w1 tr testCode err (attempt + 1)
         | Some fixedCode \<Rightarrow>
             if writable w1 (testFile tr) then
               (let w2 = w1\<lparr>files := (files w1)(testFile tr := Inr fixedCode)\<rparr> in
                if isValidTestCode fixedCode
                then (\<lparr>fixed = True, reason = None\<rparr>, w2)
                else fixLoop w2 tr testCode err (attempt + 1))
             else fixLoop w1 tr testCode err (attempt + 1))
      else (\<lparr>fixed = False, reason = Some ''Max retries exceeded''\<rparr>, w))"
  by pat_completeness auto
termination
  by (relation "measure (\<lambda>(w, tr, testCode, err, attempt). maxRetries + 1 - attempt)") auto

declare fixLoop.simps [simp del]

text \<open>
  \<open>attemptFix\<close>.  The test \<open>!testResult.error\<close> holds for a missing error and for
  the empty string.
\<close>

definition attemptFix :: "world \<Rightarrow> TestResult \<Rightarrow> FixResult \<times> world" where
  "attemptFix w tr =
     (case error tr of
        None \<Rightarrow> (\<lparr>fixed = False, reason = Some ''No error message available''\<rparr>, w)
      | Some err \<Rightarrow>
          if err = [] then (\<lparr>fixed = False, reason = Some ''No error message available''\<rparr>, w)
          else (case files w (testFile tr) of
                  Inl msg \<Rightarrow> (\<lparr>fixed = False, reason = Some (''Cannot read test file: '' @ msg)\<rparr>, w)
                | Inr testCode \<Rightarrow> fixLoop w tr testCode err 1))"

text \<open>\<open>createIssue\<close>: the three tests run in this order, a later one overrides.\<close>

definition createIssue :: "TestResult \<Rightarrow> string option \<Rightarrow> Issue" where
  "createIssue tr why =
     (let err = (case error tr of None \<Rightarrow> [] | Some e \<Rightarrow> e);
          st0 = (medium, failure);
          st1 = (if includes_js err ''SQL'' \<or> includes_js err ''XSS'' \<or> includes_js err ''injection''
                 then (high, security) else st0);
          st2 = (if includes_js err ''timeout'' \<or> includes_js err ''slow'' \<or> includes_js err ''latency''
                 then (medium, performance) else st1);
          st3 = (if includes_js err ''500'' \<or> includes_js err ''crash'' \<or> includes_js err ''exception''
                 then (critical, error_type) else st2)
      in \<lparr>issueTestFile = testFile tr, issueEndpoint = endpoint tr,
          issueSeverity = fst st3, issueType = snd st3, message = err, suggestion = why\<rparr>)"

text \<open>
  The \<open>for\<close> loop of \<open>analyze\<close> over the failed results, with the counter
  \<open>fixedTests\<close> and the list \<open>issues\<close> it updates.
\<close>

fun analyzeLoop :: "world \<Rightarrow> TestResult list \<Rightarrow> nat \<Rightarrow> Issue list \<Rightarrow> (nat \<times> Issue list) \<times> world" where
  "analyzeLoop w [] n iss = ((n, iss), w)"
| "analyzeLoop w (failedTest # rest) n iss =
     (case attemptFix w failedTest of
        (fixResult, w') \<Rightarrow>
          if fixed fixResult then analyzeLoop w' rest (n + 1) iss
          else analyzeLoop w' rest n (iss @ [createIssue failedTest (reason fixResult)]))"

text \<open>
  \<open>analyze\<close>.  The recommendations, which are computed afterwards from the results
  and the issues and change neither, are left out of the result, and so are the calls of
  \<open>emitLog\<close>.
\<close>

definition analyze :: "world \<Rightarrow> TestRunResults \<Rightarrow> AnalysisResult \<times> world" where
  "analyze w testResults =
     (let failed = filter (\<lambda>r. \<not> passed r) (results testResults) in
      case analyzeLoop w failed 0 [] of
        ((n, iss), w') \<Rightarrow>
          (\<lparr>totalTests = numTotal testResults, passedTests = numPassed testResults,
            failedTests = numFailed testResults, fixedTests = n, issues = iss\<rparr>, w'))"

text \<open>
  The results of \<open>attemptFix\<close> on the results of a list, one after the other, each in
  the world that the one before has left.
\<close>

fun fixRun :: "world \<Rightarrow> TestResult list \<Rightarrow> FixResult list" where
  "fixRun w [] = []"
| "fixRun w (t # ts) = (case attemptFix w t of (fixResult, w') \<Rightarrow> fixResult # fixRun w' ts)"

text \<open>
  For the examples: a world whose backend first answers with prose and then with test
  code, and a run with one passed result, one failed result whose file is \<open>a.test.ts\<close>
  and one failed result without an error message.
\<close>

definition secondTry :: world where
  "secondTry =
     \<lparr>files = (\<lambda>f. if f = ''a.test.ts'' then Inr ''old'' else Inl ''ENOENT''),
      writable = (\<lambda>f. True),
      backend = (\<lambda>k code err. if k = 0 then Some ''Sorry''
                               else Some ''@playwright/test test( request''),
      generated = 0\<rparr>"

definition failedA :: TestResult where
  "failedA = \<lparr>testFile = ''a.test.ts'', passed = False, error = Some ''500'',
               duration = Some 12, endpoint = Some ''GET /a''\<rparr>"

definition failedB :: TestResult where
  "failedB = \<lparr>testFile = ''b.test.ts'', passed = False, error = None,
               duration = None, endpoint = None\<rparr>"

definition passedC :: TestResult where
  "passedC = \<lparr>testFile = ''c.test.ts'', passed = True, error = None,
               duration = Some 3, endpoint = None\<rparr>"

definition exampleRun :: TestRunResults where
  "exampleRun = \<lparr>numPassed = 1, numFailed = 2, numTotal = 3,
                  results = [passedC, failedB, failedA]\<rparr>"

section \<open>The performance probe (class PerformanceTester)\<close>

text \<open>
  A JavaScript number is modelled as a real.  The sums, quotients and comparisons below
  are exact in binary floating point for the batch of C9 (every value is a small
  integer), and the two products \<open>20 * 0.95\<close> and \<open>20 * 0.99\<close> round to \<open>19\<close> and to
  a double just above \<open>19.8\<close>, so that \<open>Math.floor\<close> gives \<open>19\<close> for both, as here.
  \<open>requestsPerSecond\<close> is \<open>None\<close> where the code divides by a zero \<open>totalTime\<close>.
\<close>

datatype SpeedStatus = fast | moderate | slow | very_slow

record PerformanceMetric =
  pmEndpoint :: string
  pmMethod :: string
  averageLatency :: real
  minLatency :: real
  maxLatency :: real
  p95Latency :: real
  p99Latency :: real
  requestsPerSecond :: "real option"
  slowRequests :: nat
  status :: SpeedStatus

definition concurrentRequests :: nat where
  "concurrentRequests = 20"

definition targetLatency :: real where
  "targetLatency = 500"

text \<open>\<open>latencies[i] || 0\<close>: the entry, and \<open>0\<close> when there is none.\<close>

definition entry_or_zero :: "real list \<Rightarrow> nat \<Rightarrow> real" where
  "entry_or_zero xs i = (if i < length xs then xs ! i else 0)"

definition p95Index :: "real list \<Rightarrow> nat" where
  "p95Index latencies = nat \<lfloor>real (length latencies) * 0.95\<rfloor>"

definition p99Index :: "real list \<Rightarrow> nat" where
  "p99Index latencies = nat \<lfloor>real (length latencies) * 0.99\<rfloor>"

text \<open>
  The second half of \<open>testEndpointPerformance\<close>: the metric of the latency samples
  (there are always \<open>concurrentRequests\<close> of them) and the wall-clock time of the batch.
\<close>

definition computeMetric :: "string \<Rightarrow> string \<Rightarrow> real list \<Rightarrow> real \<Rightarrow> PerformanceMetric" where
  "computeMetric epPath epMethod samples totalTime =
     (let latencies = sort samples;
          average = sum_list latencies / real (length latencies)
      in \<lparr>pmEndpoint = epPath, pmMethod = epMethod,
          averageLatency = average,
          minLatency = entry_or_zero latencies 0,
          maxLatency = entry_or_zero latencies (length latencies - 1),
          p95Latency = entry_or_zero latencies (p95Index latencies),
          p99Latency = entry_or_zero latencies (p99Index latencies),
          requestsPerSecond =
            (if totalTime = 0 then None
             else Some (real concurrentRequests / totalTime * 1000)),
          slowRequests = length (filter (\<lambda>l. l > targetLatency) latencies),
          status =
            (if average < 200 then fast
             else if average < 500 then moderate
             else if average < 1000 then slow
             else very_slow)\<rparr>)"

text \<open>
  \<open>testEndpointPerformance\<close>, given the wall-clock time that the batch of requests
  took: every response gets the latency \<open>totalTime / concurrentRequests\<close>.
\<close>

definition testEndpointPerformance :: "string \<Rightarrow> string \<Rightarrow> real \<Rightarrow> PerformanceMetric" where
  "testEndpointPerformance epPath epMethod totalTime =
     computeMetric epPath epMethod
       (replicate concurrentRequests (totalTime / real concurrentRequests)) totalTime"

section \<open>Endpoints and JSON values\<close>

text \<open>
  The interface \<open>Endpoint\<close> of the extractor; its optional fields are options.  The
  fields \<open>method\<close> and \<open>file\<close> are named \<open>method_of\<close> and \<open>file_of\<close> here.
\<close>

record Endpoint =
  method_of :: string
  path :: string
  file_of :: string
  line :: "nat option"
  authRequired :: "bool option"
  middleware :: "string list option"

text \<open>
  A parsed JSON value.  An object is the list of its entries in the order of
  \<open>Object.entries\<close>; the keys of a parsed object are distinct.
\<close>

datatype json =
    JNull
  | JBool bool
  | JNum real
  | JStr string
  | JArr "json list"
  | JObj "(string \<times> json) list"

section \<open>The security probes (class SecurityTester)\<close>

datatype IssueKind =
  sql_injection | xss | path_traversal | large_payload | negative_value | unauthorized

text \<open>The field \<open>response\<close> of a \<open>SecurityIssue\<close>, and the issue.\<close>

record IssueResponse =
  irStatus :: int
  irBody :: "string option"
  vulnerable :: bool

record SecurityIssue =
  siEndpoint :: string
  siMethod :: string
  payload :: string
  kind :: IssueKind
  severity :: Severity
  response :: IssueResponse

record SecurityTestResults =
  stTotalTests :: nat
  stIssues :: "SecurityIssue list"
  vulnerableEndpoints :: "string list"

text \<open>
  A request as Playwright's request context receives it, and what comes back: the
  status, and the text of the body (\<open>None\<close> when \<open>response.text()\<close> throws).
\<close>

record Request =
  reqMethod :: string
  reqUrl :: string
  reqHeaders :: "(string \<times> string) list"
  reqData :: "json option"

record Response =
  status_of :: int
  text_of :: "string option"

text \<open>
  The tester: its two fields, and the live target behind the request context.
  \<open>send w r\<close> is the answer to the request \<open>r\<close> in the state \<open>w\<close> of the outside world,
  with the next state; the answer is \<open>None\<close> when the call throws (a network error, or
  a method name that the request context does not have).  \<open>authToken\<close> is what
  \<open>authenticate\<close> left there before the probes start.
\<close>

record 'w SecurityTester =
  baseURL :: string
  authToken :: "string option"
  send :: "'w \<Rightarrow> Request \<Rightarrow> Response option \<times> 'w"

definition getHeaders :: "'w SecurityTester \<Rightarrow> Endpoint \<Rightarrow> (string \<times> string) list" where
  "getHeaders t ep =
     [(''Content-Type'', ''application/json'')] @
     (case authToken t of
        None \<Rightarrow> []
      | Some tok \<Rightarrow>
          if authRequired ep = Some True \<and> tok \<noteq> []
          then [(''Authorization'', ''Bearer '' @ tok)] else [])"

definition makeRequest ::
  "'w SecurityTester \<Rightarrow> Endpoint \<Rightarrow> (string \<times> string) list \<Rightarrow> json \<Rightarrow> 'w \<Rightarrow> Response option \<times> 'w" where
  "makeRequest t ep hdrs dat w =
     (let url = baseURL t @ path ep;
          m = toLowerCase (method_of ep)
      in if m = ''get'' \<or> m = ''delete''
         then send t w \<lparr>reqMethod = m, reqUrl = url, reqHeaders = hdrs, reqData = None\<rparr>
         else send t w \<lparr>reqMethod = m, reqUrl = url, reqHeaders = hdrs, reqData = Some dat\<rparr>)"

text \<open>
  The seven patterns of \<open>detectSQLInjectionVulnerability\<close>, each as the test
  \<open>pattern.test(body)\<close>.  All carry the flag \<open>i\<close>, which for these ASCII patterns
  compares the lower-cased body.  \<open>\d\<close> is a digit, and \<open>.\<close> is any character but a
  line terminator.
\<close>

definition is_digit :: "char \<Rightarrow> bool" where
  "is_digit c = (48 \<le> (of_char c :: nat) \<and> (of_char c :: nat) \<le> 57)"

definition is_line_terminator :: "char \<Rightarrow> bool" where
  "is_line_terminator c = (c = CHR 0x0A \<or> c = CHR 0x0D)"

definition test_icase :: "string \<Rightarrow> string \<Rightarrow> bool" where
  "test_icase pat body = includes_js (toLowerCase body) pat"

text \<open>\<open>/ora-\d+/i\<close>\<close>

fun ora_digits :: "string \<Rightarrow> bool" where
  "ora_digits [] = False"
| "ora_digits (c # cs) =
     ((startsWith (c # cs) ''ora-'' \<and>
       (case drop 4 (c # cs) of [] \<Rightarrow> False | d # ds \<Rightarrow> is_digit d)) \<or>
      ora_digits cs)"

text \<open>\<open>/syntax error.*sql/i\<close>\<close>

fun syntax_error_sql :: "string \<Rightarrow> bool" where
  "syntax_error_sql [] = False"
| "syntax_error_sql (c # cs) =
     ((startsWith (c # cs) ''syntax error'' \<and>
       includes_js (takeWhile (\<lambda>x. \<not> is_line_terminator x) (drop 12 (c # cs))) ''sql'') \<or>
      syntax_error_sql cs)"

definition sqlErrorPatterns :: "(string \<Rightarrow> bool) list" where
  "sqlErrorPatterns =
     [test_icase ''sql syntax'',
      test_icase ''mysql'',
      test_icase ''postgresql'',
      test_icase ''sqlite'',
      (\<lambda>body. ora_digits (toLowerCase body)),
      test_icase ''sqlstate'',
      (\<lambda>body. syntax_error_sql (toLowerCase body))]"

definition detectSQLInjectionVulnerability :: "string \<Rightarrow> int \<Rightarrow> bool" where
  "detectSQLInjectionVulnerability body st =
     (if st = 200 then list_ex (\<lambda>pattern. pattern body) sqlErrorPatterns
      else if st = 500 then list_ex (\<lambda>pattern. pattern body) sqlErrorPatterns
      else False)"

text \<open>
  The loop that \<open>testSQLInjection\<close>, \<open>testXSS\<close> and \<open>testPathTraversal\<close> share: for
  each payload, send the data built from it and push the issue made from the answer; an
  exception (of the request or of \<open>response.text()\<close>) skips the payload.
\<close>

fun payloadLoop ::
  "'w SecurityTester \<Rightarrow> Endpoint \<Rightarrow> (string \<Rightarrow> json) \<Rightarrow> (string \<Rightarrow> int \<Rightarrow> string \<Rightarrow> SecurityIssue) \<Rightarrow>
   string list \<Rightarrow> 'w \<Rightarrow> SecurityIssue list \<times> 'w" where
  "payloadLoop t ep mkData mkIssue [] w = ([], w)"
| "payloadLoop t ep mkData mkIssue (p # ps) w =
     (case makeRequest t ep (getHeaders t ep) (mkData p) w of
        (None, w') \<Rightarrow> payloadLoop t ep mkData mkIssue ps w'
      | (Some resp, w') \<Rightarrow>
          (case text_of resp of
             None \<Rightarrow> payloadLoop t ep mkData mkIssue ps w'
           | Some body \<Rightarrow>
               (case payloadLoop t ep mkData mkIssue ps w' of
                  (found, w'') \<Rightarrow> (mkIssue p (status_of resp) body # found, w''))))"

definition sqlPayloads :: "string list" where
  "sqlPayloads =
     [squote # '' OR 1=1 --'',
      squote # '' OR '' @ [squote] @ ''1'' @ [squote] @ ''='' @ [squote] @ ''1'',
      ''1'' @ [squote] @ '' OR '' @ [squote] @ ''1'' @ [squote] @ ''='' @ [squote] @ ''1'',
      ''admin'' @ [squote] @ ''--'',
      squote # '' UNION SELECT NULL--'']"

definition sqlIssue :: "Endpoint \<Rightarrow> string \<Rightarrow> int \<Rightarrow> string \<Rightarrow> SecurityIssue" where
  "sqlIssue ep p st body =
     (let isVulnerable = detectSQLInjectionVulnerability body st
      in \<lparr>siEndpoint = path ep, siMethod = method_of ep, payload = p, kind = sql_injection,
          severity = (if isVulnerable then high else low),
          response = \<lparr>irStatus = st, irBody = Some (take 500 body), vulnerable = isVulnerable\<rparr>\<rparr>)"

definition testSQLInjection :: "'w SecurityTester \<Rightarrow> Endpoint \<Rightarrow> 'w \<Rightarrow> SecurityIssue list \<times> 'w" where
  "testSQLInjection t ep w =
     payloadLoop t ep
       (\<lambda>p. JObj [(''query'', JStr p), (''id'', JStr p), (''search'', JStr p)])
       (sqlIssue ep) sqlPayloads w"

definition xssPayloads :: "string list" where
  "xssPayloads =
     [''<script>alert(1)</script>'',
      ''<img src=x onerror=alert(1)>'',
      ''javascript:alert(1)'',
      ''<svg onload=alert(1)>'']"

definition xssIssue :: "Endpoint \<Rightarrow> string \<Rightarrow> int \<Rightarrow> string \<Rightarrow> SecurityIssue" where
  "xssIssue ep p st body =
     (let isVulnerable = (includes_js body p \<and> \<not> includes_js body ''&lt;script&gt;'')
      in \<lparr>siEndpoint = path ep, siMethod = method_of ep, payload = p, kind = xss,
          severity = (if isVulnerable then high else low),
          response = \<lparr>irStatus = st, irBody = Some (take 500 body), vulnerable = isVulnerable\<rparr>\<rparr>)"

definition testXSS :: "'w SecurityTester \<Rightarrow> Endpoint \<Rightarrow> 'w \<Rightarrow> SecurityIssue list \<times> 'w" where
  "testXSS t ep w =
     payloadLoop t ep
       (\<lambda>p. JObj [(''input'', JStr p), (''name'', JStr p), (''content'', JStr p)])
       (xssIssue ep) xssPayloads w"

definition pathPayloads :: "string list" where
  "pathPayloads =
     [''../../../etc/passwd'',
      ''..'' @ [backslash] @ ''..'' @ [backslash] @ ''..'' @ [backslash] @ ''windows'' @
        [backslash] @ ''system32'' @ [backslash] @ ''config'' @ [backslash] @ ''sam'',
      ''....//....//....//etc/passwd'']"

definition pathIssue :: "Endpoint \<Rightarrow> string \<Rightarrow> int \<Rightarrow> string \<Rightarrow> SecurityIssue" where
  "pathIssue ep p st body =
     (let isVulnerable = (includes_js body ''root:'' \<or> includes_js body ''[boot loader]'')
      in \<lparr>siEndpoint = path ep, siMethod = method_of ep, payload = p, kind = path_traversal,
          severity = (if isVulnerable then critical else low),
          response = \<lparr>irStatus = st, irBody = Some (take 500 body), vulnerable = isVulnerable\<rparr>\<rparr>)"

definition testPathTraversal :: "'w SecurityTester \<Rightarrow> Endpoint \<Rightarrow> 'w \<Rightarrow> SecurityIssue list \<times> 'w" where
  "testPathTraversal t ep w =
     payloadLoop t ep
       (\<lambda>p. JObj [(''file'', JStr p), (''path'', JStr p), (''filename'', JStr p)])
       (pathIssue ep) pathPayloads w"

text \<open>\<open>testLargePayload\<close>: nothing is sent to a \<open>GET\<close> or \<open>DELETE\<close> endpoint.\<close>

definition largePayload :: json where
  "largePayload = JObj [(''data'', JStr (replicate 100000 CHR ''x''))]"

definition testLargePayload :: "'w SecurityTester \<Rightarrow> Endpoint \<Rightarrow> 'w \<Rightarrow> SecurityIssue list \<times> 'w" where
  "testLargePayload t ep w =
     (if method_of ep = ''GET'' \<or> method_of ep = ''DELETE'' then ([], w)
      else (case makeRequest t ep (getHeaders t ep) largePayload w of
              (None, w') \<Rightarrow> ([], w')
            | (Some resp, w') \<Rightarrow>
                (let isVulnerable = (status_of resp = 500 \<or> status_of resp = 413)
                 in ([\<lparr>siEndpoint = path ep, siMethod = method_of ep,
                        payload = ''Large payload (100KB)'', kind = large_payload,
                        severity = (if isVulnerable then medium else low),
                        response = \<lparr>irStatus = status_of resp, irBody = None,
                                     vulnerable = isVulnerable\<rparr>\<rparr>], w'))))"

text \<open>
  \<open>testNegativeValues\<close>.  The payload text is \<open>JSON.stringify\<close> of the data.
\<close>

definition negativePayload :: json where
  "negativePayload = JObj [(''id'', JNum (- 1)), (''price'', JNum (- 100)), (''quantity'', JNum (- 999))]"

definition negativePayloadText :: string where
  "negativePayloadText =
     ''{'' @ [dquote] @ ''id'' @ [dquote] @ '':-1,'' @ [dquote] @ ''price'' @ [dquote] @
     '':-100,'' @ [dquote] @ ''quantity'' @ [dquote] @ '':-999}''"

definition testNegativeValues :: "'w SecurityTester \<Rightarrow> Endpoint \<Rightarrow> 'w \<Rightarrow> SecurityIssue list \<times> 'w" where
  "testNegativeValues t ep w =
     (if method_of ep = ''GET'' \<or> method_of ep = ''DELETE'' then ([], w)
      else (case makeRequest t ep (getHeaders t ep) negativePayload w of
              (None, w') \<Rightarrow> ([], w')
            | (Some resp, w') \<Rightarrow>
                (case text_of resp of
                   None \<Rightarrow> ([], w')
                 | Some body \<Rightarrow>
                     (let isVulnerable = (status_of resp < 400 \<and> \<not> includes_js body ''error'')
                      in ([\<lparr>siEndpoint = path ep, siMethod = method_of ep,
                             payload = negativePayloadText, kind = negative_value,
                             severity = (if isVulnerable then medium else low),
                             response = \<lparr>irStatus = status_of resp, irBody = None,
                                          vulnerable = isVulnerable\<rparr>\<rparr>], w')))))"

text \<open>\<open>testUnauthorizedAccess\<close>: the headers carry no token.\<close>

definition testUnauthorizedAccess :: "'w SecurityTester \<Rightarrow> Endpoint \<Rightarrow> 'w \<Rightarrow> SecurityIssue list \<times> 'w" where
  "testUnauthorizedAccess t ep w =
     (case makeRequest t ep [(''Content-Type'', ''application/json'')] (JObj []) w of
        (None, w') \<Rightarrow> ([], w')
      | (Some resp, w') \<Rightarrow>
          (let isVulnerable = (status_of resp < 400)
           in ([\<lparr>siEndpoint = path ep, siMethod = method_of ep,
                  payload = ''No authentication token'', kind = unauthorized,
                  severity = (if isVulnerable then critical else low),
                  response = \<lparr>irStatus = status_of resp, irBody = None,
                               vulnerable = isVulnerable\<rparr>\<rparr>], w')))"

text \<open>
  \<open>vulnerableEndpoints\<close> is a \<open>Set\<close> of strings, turned into an array at the end: the
  keys in the order of their first insertion.
\<close>

definition set_add :: "string list \<Rightarrow> string \<Rightarrow> string list" where
  "set_add ks k = (if k \<in> set ks then ks else ks @ [k])"

text \<open>
  \<open>sqlIssues.forEach(...)\<close> and its two siblings: every vulnerable issue of the list
  adds the key of the endpoint.
\<close>

fun addVulnerable :: "string list \<Rightarrow> string \<Rightarrow> SecurityIssue list \<Rightarrow> string list" where
  "addVulnerable ks k [] = ks"
| "addVulnerable ks k (issue # rest) =
     addVulnerable (if vulnerable (response issue) then set_add ks k else ks) k rest"

definition endpointKey :: "Endpoint \<Rightarrow> string" where
  "endpointKey ep = method_of ep @ '' '' @ path ep"

text \<open>
  The loop of \<open>testEndpoints\<close> over the endpoints, with the list \<open>issues\<close> and the
  set \<open>vulnerableEndpoints\<close> it updates.
\<close>

fun endpointLoop ::
  "'w SecurityTester \<Rightarrow> Endpoint list \<Rightarrow> SecurityIssue list \<Rightarrow> string list \<Rightarrow> 'w \<Rightarrow>
   (SecurityIssue list \<times> string list) \<times> 'w" where
  "endpointLoop t [] iss vs w = ((iss, vs), w)"
| "endpointLoop t (ep # eps) iss vs w =
     (case testSQLInjection t ep w of (sqlIssues, w1) \<Rightarrow>
      case testXSS t ep w1 of (xssIssues, w2) \<Rightarrow>
      case testPathTraversal t ep w2 of (pathIssues, w3) \<Rightarrow>
      case testLargePayload t ep w3 of (largePayloadIssues, w4) \<Rightarrow>
      case testNegativeValues t ep w4 of (negativeIssues, w5) \<Rightarrow>
      case (if authRequired ep = Some True then testUnauthorizedAccess t ep w5 else ([], w5)) of
        (authIssues, w6) \<Rightarrow>
      endpointLoop t eps
        (iss @ sqlIssues @ xssIssues @ pathIssues @ largePayloadIssues @ negativeIssues @ authIssues)
        (addVulnerable (addVulnerable (addVulnerable vs (endpointKey ep) sqlIssues)
           (endpointKey ep) xssIssues) (endpointKey ep) pathIssues)
        w6)"

text \<open>
  \<open>testEndpoints\<close>, from the launch of the browser on: when the launch fails
  (\<open>launches\<close> is false) the call throws and there is no result.
\<close>

definition testEndpoints ::
  "'w SecurityTester \<Rightarrow> bool \<Rightarrow> Endpoint list \<Rightarrow> 'w \<Rightarrow> SecurityTestResults option \<times> 'w" where
  "testEndpoints t launches endpoints w =
     (if \<not> launches then (None, w)
      else (case endpointLoop t endpoints [] [] w of
              ((iss, vs), w') \<Rightarrow>
                (Some \<lparr>stTotalTests = length iss, stIssues = iss, vulnerableEndpoints = vs\<rparr>, w')))"

text \<open>
  The HTML-escaped form of a text, in the words of C5: the characters \<open>&\<close>, \<open><\<close>,
  \<open>>\<close>, the double and the single quote are replaced by their entities.  The tester
  has no such function; this one states the claim.
\<close>

fun htmlEscaped_spec :: "string \<Rightarrow> string" where
  "htmlEscaped_spec [] = []"
| "htmlEscaped_spec (c # cs) =
     (if c = CHR ''&'' then ''&amp;''
      else if c = CHR ''<'' then ''&lt;''
      else if c = CHR ''>'' then ''&gt;''
      else if c = dquote then ''&quot;''
      else if c = squote then ''&#39;''
      else [c]) @ htmlEscaped_spec cs"

text \<open>An endpoint for the examples: \<open>POST /items\<close>, no authentication.\<close>

definition postItems :: Endpoint where
  "postItems = \<lparr>method_of = ''POST'', path = ''/items'', file_of = ''routes.js'', line = Some 1,
                 authRequired = None, middleware = None\<rparr>"


text \<open>
  Two live targets for the examples, without state.  The first answers every request
  with \<open>413 Payload Too Large\<close>.  The second answers a \<open>POST\<close> request with
  \<open>500\<close>, and any other request with \<open>200\<close> and the first line of a password file.
\<close>

definition rejectingTarget :: "unit \<Rightarrow> Request \<Rightarrow> Response option \<times> unit" where
  "rejectingTarget w r = (Some \<lparr>status_of = 413, text_of = Some ''Payload Too Large''\<rparr>, w)"

definition leakyTarget :: "unit \<Rightarrow> Request \<Rightarrow> Response option \<times> unit" where
  "leakyTarget w r =
     (if reqMethod r = ''post''
      then (Some \<lparr>status_of = 500, text_of = Some ''Internal Server Error''\<rparr>, w)
      else (Some \<lparr>status_of = 200, text_of = Some ''root:x:0:0:root:/root:/bin/sh''\<rparr>, w))"

definition getFiles :: Endpoint where
  "getFiles = \<lparr>method_of = ''GET'', path = ''/files'', file_of = ''routes.js'', line = Some 2,
                authRequired = None, middleware = None\<rparr>"

text \<open>
  What goes over the wire in a payload loop, said without the issues: for each payload
  in turn, the request that the request context receives and the answer of the target,
  each request in the state that the one before has left.
\<close>

definition requestFor :: "'w SecurityTester \<Rightarrow> Endpoint \<Rightarrow> json \<Rightarrow> Request" where
  "requestFor t ep dat =
     \<lparr>reqMethod = toLowerCase (method_of ep), reqUrl = baseURL t @ path ep,
      reqHeaders = getHeaders t ep,
      reqData = (if toLowerCase (method_of ep) = ''get'' \<or> toLowerCase (method_of ep) = ''delete''
                 then None else Some dat)\<rparr>"

fun exchanges ::
  "'w SecurityTester \<Rightarrow> Endpoint \<Rightarrow> (string \<Rightarrow> json) \<Rightarrow> string list \<Rightarrow> 'w \<Rightarrow>
   (string \<times> Response option) list" where
  "exchanges t ep mkData [] w = []"
| "exchanges t ep mkData (p # ps) w =
     (case send t w (requestFor t ep (mkData p)) of
        (answer, w') \<Rightarrow> (p, answer) # exchanges t ep mkData ps w')"

text \<open>
  Four more live targets for the examples, without state.  The first answers every
  request with the error page of a database, the second with \<open>No results\<close>.  The third
  echoes the first field of the data it is sent.  The fourth echoes it after a warning
  that holds an escaped script tag.
\<close>

definition sqlErrorTarget :: "unit \<Rightarrow> Request \<Rightarrow> Response option \<times> unit" where
  "sqlErrorTarget w r =
     (Some \<lparr>status_of = 200, text_of = Some ''You have an error in your SQL syntax''\<rparr>, w)"

definition noResultsTarget :: "unit \<Rightarrow> Request \<Rightarrow> Response option \<times> unit" where
  "noResultsTarget w r = (Some \<lparr>status_of = 200, text_of = Some ''No results''\<rparr>, w)"

definition firstField :: "json option \<Rightarrow> string" where
  "firstField dat = (case dat of Some (JObj ((k, JStr v) # kvs)) \<Rightarrow> v | _ \<Rightarrow> [])"

definition echoTarget :: "unit \<Rightarrow> Request \<Rightarrow> Response option \<times> unit" where
  "echoTarget w r = (Some \<lparr>status_of = 200, text_of = Some (firstField (reqData r))\<rparr>, w)"

definition warningEchoTarget :: "unit \<Rightarrow> Request \<Rightarrow> Response option \<times> unit" where
  "warningEchoTarget w r =
     (Some \<lparr>status_of = 200,
            text_of = Some (''&lt;script&gt; is not allowed: '' @ firstField (reqData r))\<rparr>, w)"

text \<open>
  Two notions for the invariant of \<open>testEndpoints\<close>: an issue of the given endpoint and
  kind, and the keys of the issues that are vulnerable and of one of the three injection
  kinds.
\<close>

definition issue_of :: "Endpoint \<Rightarrow> IssueKind \<Rightarrow> SecurityIssue \<Rightarrow> bool" where
  "issue_of ep k i = (siEndpoint i = path ep \<and> siMethod i = method_of ep \<and> kind i = k)"

definition flagged :: "SecurityIssue list \<Rightarrow> string set" where
  "flagged iss =
     {siMethod i @ '' '' @ siEndpoint i | i.
        i \<in> set iss \<and> vulnerable (response i) \<and>
        (kind i = sql_injection \<or> kind i = xss \<or> kind i = path_traversal)}"


section \<open>Discovery from an OpenAPI document (discoverEndpointsFromOpenApi)\<close>

definition HTTP_METHODS :: "string list" where
  "HTTP_METHODS = [''get'', ''post'', ''put'', ''delete'', ''patch'', ''head'', ''options'']"

text \<open>
  Reading the property \<open>k\<close> of a value that is not \<open>null\<close>: \<open>None\<close> is \<open>undefined\<close>.
  Only the names \<open>paths\<close>, \<open>security\<close> and the seven method names are ever read,
  and only an object can have them.
\<close>

definition getProp :: "json \<Rightarrow> string \<Rightarrow> json option" where
  "getProp v k = (case v of JObj kvs \<Rightarrow> map_of kvs k | _ \<Rightarrow> None)"

text \<open>\<open>v && typeof v === 'object'\<close>: an object or an array.\<close>

definition objectLike :: "json \<Rightarrow> bool" where
  "objectLike v = (case v of JObj kvs \<Rightarrow> True | JArr xs \<Rightarrow> True | _ \<Rightarrow> False)"

text \<open>The decimal text of an array index, its key in \<open>Object.entries\<close>.\<close>

function decimal :: "nat \<Rightarrow> string" where
  "decimal n =
     (if n < 10 then [''0123456789'' ! n]
      else decimal (n div 10) @ [''0123456789'' ! (n mod 10)])"
  by pat_completeness auto
termination
  by (relation "measure (\<lambda>n. n)") auto

declare decimal.simps [simp del]

definition entries :: "json \<Rightarrow> (string \<times> json) list" where
  "entries v =
     (case v of
        JObj kvs \<Rightarrow> kvs
      | JArr xs \<Rightarrow> zip (map decimal [0..<length xs]) xs
      | _ \<Rightarrow> [])"

text \<open>
  \<open>Array.isArray(op.security) && op.security.length > 0\<close>
\<close>

definition declaresSecurity :: "json \<Rightarrow> bool" where
  "declaresSecurity op =
     (case getProp op ''security'' of
        Some (JArr xs) \<Rightarrow> xs \<noteq> []
      | _ \<Rightarrow> False)"

text \<open>The inner loop over \<open>HTTP_METHODS\<close>, for one path and its item.\<close>

fun methodLoop :: "string \<Rightarrow> string \<Rightarrow> json \<Rightarrow> string list \<Rightarrow> Endpoint list" where
  "methodLoop url p pathItem [] = []"
| "methodLoop url p pathItem (m # ms) =
     (case getProp pathItem m of
        None \<Rightarrow> methodLoop url p pathItem ms
      | Some op \<Rightarrow>
          if \<not> objectLike op then methodLoop url p pathItem ms
          else \<lparr>method_of = toUpperCase m, path = p, file_of = url, line = None,
                authRequired = Some (declaresSecurity op), middleware = None\<rparr>
               # methodLoop url p pathItem ms)"

text \<open>The outer loop over the entries of \<open>spec.paths\<close>.\<close>

fun pathLoop :: "string \<Rightarrow> (string \<times> json) list \<Rightarrow> Endpoint list" where
  "pathLoop url [] = []"
| "pathLoop url ((p, pathItem) # rest) =
     (if \<not> objectLike pathItem then pathLoop url rest
      else if \<not> startsWith p ''/'' then pathLoop url rest
      else methodLoop url p pathItem HTTP_METHODS @ pathLoop url rest)"

datatype discover_error =
    NotValidJson
  | InvalidPaths
  | TypeError

text \<open>
  \<open>discoverEndpointsFromOpenApi\<close>, from the data of the response on (an error of the
  request itself is thrown on as it is).  \<open>parse\<close> is \<open>JSON.parse\<close>, \<open>None\<close> when it
  throws.  Reading \<open>paths\<close> of \<open>null\<close> throws a \<open>TypeError\<close>.
\<close>

definition discoverEndpointsFromOpenApi ::
  "(string \<Rightarrow> json option) \<Rightarrow> string \<Rightarrow> json \<Rightarrow> discover_error + Endpoint list" where
  "discoverEndpointsFromOpenApi parse openApiUrl responseData =
     (case (case responseData of
              JStr s \<Rightarrow> (case parse s of None \<Rightarrow> Inl NotValidJson | Some v \<Rightarrow> Inr v)
            | _ \<Rightarrow> Inr responseData) of
        Inl e \<Rightarrow> Inl e
      | Inr spec \<Rightarrow>
          if spec = JNull then Inl TypeError
          else (case getProp spec ''paths'' of
                  None \<Rightarrow> Inl InvalidPaths
                | Some paths \<Rightarrow>
                    if \<not> objectLike paths then Inl InvalidPaths
                    else Inr (pathLoop openApiUrl (entries paths))))"

text \<open>The document of C7, and three more for the examples.\<close>

definition exampleDocument :: json where
  "exampleDocument =
     JObj [(''paths'',
       JObj [(''/a'', JObj [(''get'', JObj [])]),
             (''/b'', JObj [(''post'', JObj [(''security'', JArr [JObj []])])])])]"

definition nullOperationDocument :: json where
  "nullOperationDocument = JObj [(''paths'', JObj [(''/a'', JObj [(''get'', JNull)])])]"

definition relativePathDocument :: json where
  "relativePathDocument = JObj [(''paths'', JObj [(''a'', JObj [(''get'', JObj [])])])]"

definition arrayPathsDocument :: json where
  "arrayPathsDocument = JObj [(''paths'', JArr [JObj [(''get'', JObj [])]])]"


section \<open>Endpoint extraction from source files (class EndpointExtractor)\<close>

text \<open>
  The two patterns of \<open>extractFromFile\<close> are
  \<open>router\.(get|post|put|delete|patch|all)\s*\(\s*['"`]([^'"`]+)['"`]\<close> and the same
  with \<open>app\<close> for \<open>router\<close>.  \<open>\s\<close> is a white-space character: within the
  characters of the model, tab, line feed, vertical tab, form feed, carriage return,
  space and the no-break space.
\<close>

definition verbs :: "string list" where
  "verbs = [''get'', ''post'', ''put'', ''delete'', ''patch'', ''all'']"

definition is_space :: "char \<Rightarrow> bool" where
  "is_space c =
     (c = CHR 0x09 \<or> c = CHR 0x0A \<or> c = CHR 0x0B \<or> c = CHR 0x0C \<or> c = CHR 0x0D \<or>
      c = CHR 0x20 \<or> c = CHR 0xA0)"

definition is_quote :: "char \<Rightarrow> bool" where
  "is_quote c = (c = squote \<or> c = dquote \<or> c = bquote)"

text \<open>
  The alternation: the first of the alternatives that the text starts with, and the
  text after it.
\<close>

fun first_verb :: "string list \<Rightarrow> string \<Rightarrow> (string \<times> string) option" where
  "first_verb [] s = None"
| "first_verb (v # vs) s =
     (if startsWith s v then Some (v, drop (length v) s) else first_verb vs s)"

text \<open>
  A match of the pattern at the very start of \<open>s\<close>: the two groups and the text after
  the match.  No alternative is a prefix of another, the character after \<open>\s*\<close> is not
  white space and the character after the path is a quote, so the greedy match is the
  only one and the engine never backtracks into a different match.
\<close>

definition match_here :: "string \<Rightarrow> string \<Rightarrow> (string \<times> string \<times> string) option" where
  "match_here receiver s =
     (if \<not> startsWith s (receiver @ ''.'') then None
      else (case first_verb verbs (drop (length receiver + 1) s) of
              None \<Rightarrow> None
            | Some (verb, r1) \<Rightarrow>
                (case dropWhile is_space r1 of
                   [] \<Rightarrow> None
                 | c # r2 \<Rightarrow>
                     if c \<noteq> CHR ''('' then None
                     else (case dropWhile is_space r2 of
                             [] \<Rightarrow> None
                           | q # r3 \<Rightarrow>
                               if \<not> is_quote q then None
                               else (let routePath = takeWhile (\<lambda>x. \<not> is_quote x) r3 in
                                     case dropWhile (\<lambda>x. \<not> is_quote x) r3 of
                                       [] \<Rightarrow> None
                                     | q' # rest \<Rightarrow>
                                         if routePath = [] then None
                                         else Some (verb, routePath, rest))))))"

text \<open>
  The loop \<open>while ((match = pattern.exec(line)) !== null)\<close> of a pattern with the flag
  \<open>g\<close>: the leftmost match from the current position on, then on from its end.  Each
  match gives the pair of the two groups.
\<close>

function execAll :: "string \<Rightarrow> string \<Rightarrow> (string \<times> string) list" where
  "execAll receiver [] = []"
| "execAll receiver (c # cs) =
     (case match_here receiver (c # cs) of
        None \<Rightarrow> execAll receiver cs
      | Some (verb, routePath, rest) \<Rightarrow> (verb, routePath) # execAll receiver rest)"
  by pat_completeness auto
termination
proof (relation "measure (\<lambda>(receiver, s). length s)", goal_cases)
  case 1
  show ?case by simp
next
  case (2 receiver c cs)
  show ?case by simp
next
  case (3 receiver c cs x2 x1 y routePath rest)
  then have m: "match_here receiver (c # cs) = Some (x1, routePath, rest)" by simp
  have dw: "length (dropWhile P xs) \<le> length xs" for P and xs :: string
    by (rule length_dropWhile_le)
  have fv: "first_verb vs t = Some (v, r) \<Longrightarrow> length r \<le> length t" for vs t v r
    by (induction vs) (auto split: if_splits)
  from m obtain r1 d r2 q r3 q' where
    a: "first_verb verbs (drop (length receiver + 1) (c # cs)) = Some (x1, r1)"
    and b: "dropWhile is_space r1 = d # r2"
    and e: "dropWhile is_space r2 = q # r3"
    and f: "dropWhile (\<lambda>x. \<not> is_quote x) r3 = q' # rest"
    by (auto simp: match_here_def Let_def split: if_splits option.splits list.splits)
  have "length rest < length r3" using dw [of "\<lambda>x. \<not> is_quote x" r3] f by simp
  also have "\<dots> < length r2" using dw [of is_space r2] e by simp
  also have "\<dots> < length r1" using dw [of is_space r1] b by simp
  also have "\<dots> \<le> length (drop (length receiver + 1) (c # cs))" using fv [OF a] .
  also have "\<dots> \<le> length (c # cs)" by simp
  finally show ?case by simp
qed

declare execAll.simps [simp del]

text \<open>The endpoints pushed for one line: the router matches, then the app matches.\<close>

definition lineEndpoints :: "string \<Rightarrow> nat \<Rightarrow> string \<Rightarrow> Endpoint list" where
  "lineEndpoints filePath lineNum lineText =
     map (\<lambda>(verb, routePath).
            \<lparr>method_of = toUpperCase verb, path = routePath, file_of = filePath,
             line = Some lineNum, authRequired = None, middleware = None\<rparr>)
         (execAll ''router'' lineText @ execAll ''app'' lineText)"

text \<open>The loop over the lines, from the line with the number \<open>lineNum\<close> on.\<close>

fun lineLoop :: "string \<Rightarrow> nat \<Rightarrow> string list \<Rightarrow> Endpoint list" where
  "lineLoop filePath lineNum [] = []"
| "lineLoop filePath lineNum (lineText # lns) =
     lineEndpoints filePath lineNum lineText @ lineLoop filePath (lineNum + 1) lns"

text \<open>
  \<open>detectAuthMiddleware\<close>.  The seven patterns are plain texts, tested with their
  case.  \<open>\w\<close> is a letter, a digit or the underscore.
\<close>

definition authPatterns :: "string list" where
  "authPatterns =
     [''authenticate'', ''auth'', ''jwt'', ''verifyToken'', ''requireAuth'',
      ''isAuthenticated'', ''passport.authenticate'']"

definition is_word :: "char \<Rightarrow> bool" where
  "is_word c =
     ((97 \<le> (of_char c :: nat) \<and> (of_char c :: nat) \<le> 122) \<or>
      (65 \<le> (of_char c :: nat) \<and> (of_char c :: nat) \<le> 90) \<or>
      (48 \<le> (of_char c :: nat) \<and> (of_char c :: nat) \<le> 57) \<or>
      c = CHR ''_'')"

text \<open>
  \<open>line.match(/(\w+)\s*\(/)\<close>: the group of the leftmost match, tried at each
  position in turn.
\<close>

fun firstCallName :: "string \<Rightarrow> string option" where
  "firstCallName [] = None"
| "firstCallName (c # cs) =
     (if is_word c \<and>
         (case dropWhile is_space (dropWhile is_word (c # cs)) of
            [] \<Rightarrow> False
          | d # ds \<Rightarrow> d = CHR ''('')
      then Some (takeWhile is_word (c # cs))
      else firstCallName cs)"

text \<open>
  The inner \<open>for\<close> loop over the window of lines, given as the list of these lines:
  the first line with an auth pattern marks the endpoint and ends the loop.
\<close>

fun windowLoop :: "string list \<Rightarrow> Endpoint \<Rightarrow> Endpoint" where
  "windowLoop [] ep = ep"
| "windowLoop (lineText # lns) ep =
     (if list_ex (\<lambda>pattern. includes_js lineText pattern) authPatterns then
        (case firstCallName lineText of
           None \<Rightarrow> ep\<lparr>authRequired := Some True\<rparr>
         | Some name \<Rightarrow>
             ep\<lparr>authRequired := Some True,
                middleware := Some ((case middleware ep of None \<Rightarrow> [] | Some ms \<Rightarrow> ms) @ [name])\<rparr>)
      else windowLoop lns ep)"

text \<open>
  The window of an endpoint declared on line \<open>n\<close>: the lines with the indices from
  \<open>max 0 (n - 5)\<close> up to \<open>min (length lines) (n + 5)\<close>, the latter excluded.  An
  endpoint without a line, or with the line \<open>0\<close>, is left as it is.
\<close>

definition detectAuthMiddleware :: "string \<Rightarrow> Endpoint list \<Rightarrow> Endpoint list" where
  "detectAuthMiddleware content endpoints =
     (let lns = split_lines content in
      map (\<lambda>ep.
             case line ep of
               None \<Rightarrow> ep
             | Some n \<Rightarrow>
                 if n = 0 then ep
                 else (let startLine = n - 5;
                           endLine = min (length lns) (n + 5)
                       in windowLoop (take (endLine - startLine) (drop startLine lns)) ep))
          endpoints)"

text \<open>
  \<open>extractFromFile\<close>.  \<open>readFile\<close> is the file system: the content of a file, or the
  message of the error that reading it throws.  The error is caught and thrown again
  with the name of the file.
\<close>

datatype extract_error = ExtractError string

definition extractFromFile ::
  "(string \<Rightarrow> string + string) \<Rightarrow> string \<Rightarrow> extract_error + Endpoint list" where
  "extractFromFile readFile filePath =
     (case readFile filePath of
        Inl msg \<Rightarrow>
          Inl (ExtractError (''Failed to extract endpoints from '' @ filePath @ '': '' @ msg))
      | Inr content \<Rightarrow>
          Inr (detectAuthMiddleware content (lineLoop filePath 1 (split_lines content))))"

text \<open>
  The loop over the route files in the handlers of \<open>/api/scan\<close> and \<open>/api/full-scan\<close>
  (routes.ts): \<open>endpoints.push(...fileEndpoints)\<close> for each file.  An exception of
  \<open>extractFromFile\<close> leaves the loop; the handler answers with status 500.
\<close>

fun extractAll ::
  "(string \<Rightarrow> string + string) \<Rightarrow> string list \<Rightarrow> Endpoint list \<Rightarrow> extract_error + Endpoint list" where
  "extractAll readFile [] endpoints = Inr endpoints"
| "extractAll readFile (f # routeFiles) endpoints =
     (case extractFromFile readFile f of
        Inl e \<Rightarrow> Inl e
      | Inr fileEndpoints \<Rightarrow> extractAll readFile routeFiles (endpoints @ fileEndpoints))"

text \<open>
  The matches of a pattern said by position, without the loop.  \<open>suffixes s\<close> are the
  texts from each position of \<open>s\<close> on.  \<open>declarationsAt\<close> lists, position by position,
  the verb and the path of the match that starts there, if one does.  A text is
  \<open>overlapFree\<close> when no match starts inside another match.
\<close>

fun suffixes :: "string \<Rightarrow> string list" where
  "suffixes [] = []"
| "suffixes (c # cs) = (c # cs) # suffixes cs"

definition declarationsAt :: "string \<Rightarrow> string \<Rightarrow> (string \<times> string) list" where
  "declarationsAt receiver s =
     List.map_filter
       (\<lambda>t. map_option (\<lambda>(verb, routePath, rest). (verb, routePath)) (match_here receiver t))
       (suffixes s)"

fun overlapFree :: "string \<Rightarrow> string \<Rightarrow> bool" where
  "overlapFree receiver [] = True"
| "overlapFree receiver (c # cs) =
     ((case match_here receiver (c # cs) of
         None \<Rightarrow> True
       | Some (verb, routePath, rest) \<Rightarrow>
           list_all (\<lambda>t. match_here receiver t = None)
             (take (length cs - length rest) (suffixes cs))) \<and>
      overlapFree receiver cs)"

text \<open>
  The route declarations of a text, in the words of C1 as amended: on each line, the
  matches of the router pattern and then those of the app pattern, each with its verb
  and its path.
\<close>

definition declarations :: "string \<Rightarrow> (string \<times> string) list" where
  "declarations content =
     concat (map (\<lambda>lineText. execAll ''router'' lineText @ execAll ''app'' lineText) (split_lines content))"


section \<open>The project scan (class ProjectScanner)\<close>

text \<open>
  The project tree as \<open>readdir\<close> with \<open>withFileTypes\<close> shows it.  A directory is
  either listed, with the names and nodes of its entries, or reading it throws an error
  with a code.  \<open>Special\<close> is an entry that is neither a file nor a directory.
\<close>

datatype fs_error = EACCES | ENOENT | OtherCode string

datatype fs_node =
    RegularFile
  | Special
  | Unreadable fs_error
  | Directory "(string \<times> fs_node) list"

definition skipPatterns :: "string list" where
  "skipPatterns =
     [''node_modules'', ''dist'', ''build'', ''.git'', ''.next'', ''coverage'', ''.vscode'',
      ''.idea'', ''playwright-tests'', ''tests'', ''test'', ''__tests__'', ''.env'',
      ''package-lock.json'', ''yarn.lock'', ''pnpm-lock.yaml'']"

definition shouldSkip :: "string \<Rightarrow> bool" where
  "shouldSkip name = list_ex (\<lambda>pattern. includes_js name pattern) skipPatterns"

definition endsWith :: "string \<Rightarrow> string \<Rightarrow> bool" where
  "endsWith s suffix = startsWith (rev s) (rev suffix)"

text \<open>
  \<open>isRouteFile\<close> is called with the name of the entry, which has no directory part:
  \<open>isInRouteDir\<close> is computed from the directory name \<open>.\<close> and is always false.
\<close>

definition isRouteFile :: "string \<Rightarrow> bool" where
  "isRouteFile filename =
     (let isSourceFile = (endsWith filename ''.js'' \<or> endsWith filename ''.ts'' \<or>
                          endsWith filename ''.jsx'' \<or> endsWith filename ''.tsx'')
      in if \<not> isSourceFile then False
         else (let matchesPattern =
                     list_ex (\<lambda>pattern. includes_js (toLowerCase filename) pattern)
                       [''route'', ''router'', ''api'', ''controller'', ''endpoint'', ''handler''];
                   isInRouteDir = False
               in matchesPattern \<or> isInRouteDir))"

text \<open>
  \<open>scanDirectory\<close> on a node and \<open>scanEntries\<close>, its loop over the entries.  The
  \<open>catch\<close> skips a directory that cannot be read with \<open>EACCES\<close> or \<open>ENOENT\<close> and
  throws every other error on.  An error that comes out of the loop comes from a nested
  call, which has thrown it on for the same reason, so it is thrown on here too.
  \<open>joinPath\<close> is \<open>path.join\<close> of the library, applied to the path of the directory
  and the name of the entry.
\<close>

fun scanDirectory ::
    "(string \<Rightarrow> string \<Rightarrow> string) \<Rightarrow> string \<Rightarrow> fs_node \<Rightarrow> string list \<Rightarrow> fs_error + string list"
  and scanEntries ::
    "(string \<Rightarrow> string \<Rightarrow> string) \<Rightarrow> string \<Rightarrow> (string \<times> fs_node) list \<Rightarrow> string list \<Rightarrow>
     fs_error + string list"
  where
  "scanDirectory joinPath dirPath RegularFile routeFiles = Inl (OtherCode ''ENOTDIR'')"
| "scanDirectory joinPath dirPath Special routeFiles = Inl (OtherCode ''ENOTDIR'')"
| "scanDirectory joinPath dirPath (Unreadable e) routeFiles =
     (if e \<noteq> EACCES \<and> e \<noteq> ENOENT then Inl e else Inr routeFiles)"
| "scanDirectory joinPath dirPath (Directory dirEntries) routeFiles =
     scanEntries joinPath dirPath dirEntries routeFiles"
| "scanEntries joinPath dirPath [] routeFiles = Inr routeFiles"
| "scanEntries joinPath dirPath ((name, node) # rest) routeFiles =
     (let fullPath = joinPath dirPath name in
      if shouldSkip name then scanEntries joinPath dirPath rest routeFiles
      else if node \<noteq> RegularFile \<and> node \<noteq> Special then
        (case scanDirectory joinPath fullPath node routeFiles of
           Inl e \<Rightarrow> Inl e
         | Inr routeFiles' \<Rightarrow> scanEntries joinPath dirPath rest routeFiles')
      else if node = RegularFile \<and> isRouteFile name
      then scanEntries joinPath dirPath rest (routeFiles @ [fullPath])
      else scanEntries joinPath dirPath rest routeFiles)"

datatype scan_error = ScanError fs_error

text \<open>
  The constructor and \<open>scan\<close>: the project path is resolved by \<open>path.resolve\<close> of
  the library, here \<open>resolvePath\<close>, and an error of \<open>scanDirectory\<close> is thrown again
  as a scan failure.
\<close>

definition scan ::
  "(string \<Rightarrow> string) \<Rightarrow> (string \<Rightarrow> string \<Rightarrow> string) \<Rightarrow> string \<Rightarrow> fs_node \<Rightarrow> scan_error + string list" where
  "scan resolvePath joinPath projectPath rootNode =
     (case scanDirectory joinPath (resolvePath projectPath) rootNode [] of
        Inl e \<Rightarrow> Inl (ScanError e)
      | Inr routeFiles \<Rightarrow> Inr routeFiles)"

text \<open>
  What a scan is to find, said without the loop and its accumulator.  \<open>fatalCodes\<close>
  lists, in the order of the walk, the error codes other than \<open>EACCES\<close> and \<open>ENOENT\<close>
  of the directories that cannot be read, leaving out what lies under a skipped name.
  \<open>routeFilesIn\<close> lists the paths of the route files in the order of the walk,
  passing over skipped names and over the directories that cannot be read.
\<close>

fun fatalCodes :: "fs_node \<Rightarrow> fs_error list"
  and fatalCodesOfEntries :: "(string \<times> fs_node) list \<Rightarrow> fs_error list"
  where
  "fatalCodes RegularFile = [OtherCode ''ENOTDIR'']"
| "fatalCodes Special = [OtherCode ''ENOTDIR'']"
| "fatalCodes (Unreadable e) = (if e = EACCES \<or> e = ENOENT then [] else [e])"
| "fatalCodes (Directory dirEntries) = fatalCodesOfEntries dirEntries"
| "fatalCodesOfEntries [] = []"
| "fatalCodesOfEntries ((name, node) # rest) =
     (if shouldSkip name \<or> node = RegularFile \<or> node = Special then []
      else fatalCodes node) @ fatalCodesOfEntries rest"

fun routeFilesIn :: "(string \<Rightarrow> string \<Rightarrow> string) \<Rightarrow> string \<Rightarrow> fs_node \<Rightarrow> string list"
  and routeFilesOfEntries ::
    "(string \<Rightarrow> string \<Rightarrow> string) \<Rightarrow> string \<Rightarrow> (string \<times> fs_node) list \<Rightarrow> string list"
  where
  "routeFilesIn joinPath dirPath RegularFile = []"
| "routeFilesIn joinPath dirPath Special = []"
| "routeFilesIn joinPath dirPath (Unreadable e) = []"
| "routeFilesIn joinPath dirPath (Directory dirEntries) =
     routeFilesOfEntries joinPath dirPath dirEntries"
| "routeFilesOfEntries joinPath dirPath [] = []"
| "routeFilesOfEntries joinPath dirPath ((name, node) # rest) =
     (if shouldSkip name \<or> node = Special then []
      else if node = RegularFile then (if isRouteFile name then [joinPath dirPath name] else [])
      else routeFilesIn joinPath (joinPath dirPath name) node) @
     routeFilesOfEntries joinPath dirPath rest"

text \<open>
  For the examples: \<open>path.join\<close> and \<open>path.resolve\<close> on an absolute path in normal
  form other than the root, and a project with a route file, a directory that cannot
  be entered, and a second route file after it.
\<close>

definition slashJoin :: "string \<Rightarrow> string \<Rightarrow> string" where
  "slashJoin dirPath name = dirPath @ ''/'' @ name"

definition asGiven :: "string \<Rightarrow> string" where
  "asGiven projectPath = projectPath"

definition lockedProject :: fs_node where
  "lockedProject =
     Directory [(''api.js'', RegularFile), (''locked'', Unreadable EACCES),
                (''zroutes.js'', RegularFile)]"

definition brokenProject :: fs_node where
  "brokenProject =
     Directory [(''api.js'', RegularFile),
                (''src'', Directory [(''disk'', Unreadable (OtherCode ''EIO''))]),
                (''zroutes.js'', RegularFile)]"

text \<open>
  Three file systems for the examples.  In the first, \<open>routes.js\<close> declares the
  same route twice on its first line and another route on its second line.  In the
  second, \<open>routes.js\<close> declares a \<open>HEAD\<close> route and an \<open>OPTIONS\<close> route.  In the
  third, \<open>a.js\<close> cannot be read, \<open>b.js\<close> declares a route and \<open>c.js\<close> declares
  none.
\<close>

definition firstLine :: string where
  "firstLine =
     ''router.get('' @ [squote] @ ''/a'' @ [squote] @ '', h); router.get('' @
     [dquote] @ ''/a'' @ [dquote] @ '', h)''"

definition secondLine :: string where
  "secondLine = ''app.post('' @ [bquote] @ ''/b'' @ [bquote] @ '', h)''"

definition duplicateRoutes :: "string \<Rightarrow> string + string" where
  "duplicateRoutes f =
     (if f = ''routes.js'' then Inr (firstLine @ [CHR 0x0A] @ secondLine)
      else Inl ''ENOENT: no such file or directory'')"

definition headRoutes :: "string \<Rightarrow> string + string" where
  "headRoutes f =
     (if f = ''routes.js''
      then Inr (''router.head('' @ [squote] @ ''/health'' @ [squote] @ '', h)'' @ [CHR 0x0A] @
                ''app.options('' @ [squote] @ ''/items'' @ [squote] @ '', h)'')
      else Inl ''ENOENT: no such file or directory'')"

definition lockedRoutes :: "string \<Rightarrow> string + string" where
  "lockedRoutes f =
     (if f = ''b.js'' then Inr (''router.get('' @ [squote] @ ''/b'' @ [squote] @ '', h)'')
      else if f = ''c.js'' then Inr ''module.exports = {}''
      else Inl ''EACCES: permission denied'')"

section \<open>Facts about strings\<close>

lemma startsWith_iff: "startsWith s p \<longleftrightarrow> (\<exists>ss. s = p @ ss)"
  by (induction s p rule: startsWith.induct) auto

lemma includes_js_iff: "includes_js s n \<longleftrightarrow> (\<exists>ps ss. s = ps @ n @ ss)"
proof (induction s)
  case Nil
  then show ?case by auto
next
  case (Cons c cs)
  show ?case
  proof
    assume "includes_js (c # cs) n"
    then consider "startsWith (c # cs) n" | "includes_js cs n" by auto
    then show "\<exists>ps ss. c # cs = ps @ n @ ss"
    proof cases
      case 1
      then obtain ss where "c # cs = n @ ss" by (auto simp: startsWith_iff)
      then have "c # cs = [] @ n @ ss" by simp
      then show ?thesis by blast
    next
      case 2
      then obtain ps ss where "cs = ps @ n @ ss" using Cons.IH by blast
      then have "c # cs = (c # ps) @ n @ ss" by simp
      then show ?thesis by blast
    qed
  next
    assume "\<exists>ps ss. c # cs = ps @ n @ ss"
    then obtain ps ss where eq: "c # cs = ps @ n @ ss" by blast
    show "includes_js (c # cs) n"
    proof (cases ps)
      case Nil
      with eq have "startsWith (c # cs) n" by (auto simp: startsWith_iff)
      then show ?thesis by simp
    next
      case (Cons p ps')
      with eq have "cs = ps' @ n @ ss" by simp
      then have "includes_js cs n" using Cons.IH by blast
      then show ?thesis by simp
    qed
  qed
qed

section \<open>The acceptance gates compared\<close>

text \<open>
  C8, as stated: the gate of the remediation loop is the same predicate as the gate of
  the synthesis stage.  It is not.  The code \<open>test(@playwright/test\<close> holds a test
  declaration and the framework import, so the synthesis stage accepts it
  (\<open>mergeTestCode\<close> returns it instead of the template), but the remediation gate
  rejects it, since it does not hold the word \<open>request\<close>.  In the other direction the
  code \<open>test.describe @playwright/test request\<close> passes the remediation gate and is
  rejected by the synthesis stage, which keeps the template.
\<close>

theorem gates_differ:
  "looksComplete ''test(@playwright/test'' \<and>
   mergeTestCode ''template'' ''test(@playwright/test'' = ''test(@playwright/test'' \<and>
   \<not> isValidTestCode ''test(@playwright/test'' \<and>
   isValidTestCode ''test.describe @playwright/test request'' \<and>
   \<not> looksComplete ''test.describe @playwright/test request'' \<and>
   mergeTestCode ''template'' ''test.describe @playwright/test request'' = ''template''"
  by (simp add: looksComplete_def mergeTestCode_def isValidTestCode_def)

text \<open>
  C8, amended: both gates ask for the framework import marker \<open>@playwright/test\<close> and
  for a test declaration, but they are two predicates.  The synthesis stage takes the
  generated code exactly when it holds \<open>test(\<close> and \<open>@playwright/test\<close>.  The
  remediation gate accepts exactly when the code holds \<open>@playwright/test\<close>, one of
  \<open>test(\<close> and \<open>test.describe\<close>, and the word \<open>request\<close>.  So the remediation gate
  accepts exactly the code that holds \<open>request\<close> and either passes the synthesis gate
  or holds \<open>@playwright/test\<close> with \<open>test.describe\<close>.
\<close>

theorem gates_characterised:
  "(looksComplete code \<longleftrightarrow>
      (\<exists>ps ss. code = ps @ ''test('' @ ss) \<and> (\<exists>ps ss. code = ps @ ''@playwright/test'' @ ss)) \<and>
   (mergeTestCode template code = (if looksComplete code then code else template)) \<and>
   (isValidTestCode code \<longleftrightarrow>
      (\<exists>ps ss. code = ps @ ''@playwright/test'' @ ss) \<and>
      ((\<exists>ps ss. code = ps @ ''test('' @ ss) \<or> (\<exists>ps ss. code = ps @ ''test.describe'' @ ss)) \<and>
      (\<exists>ps ss. code = ps @ ''request'' @ ss)) \<and>
   (isValidTestCode code \<longleftrightarrow>
      includes_js code ''request'' \<and>
      (looksComplete code \<or>
       (includes_js code ''@playwright/test'' \<and> includes_js code ''test.describe'')))"
  unfolding looksComplete_def mergeTestCode_def isValidTestCode_def includes_js_iff
  by blast

section \<open>The remediation loop is bounded and accounts for every failure\<close>

lemma fixLoop_generated:
  "generated w \<le> generated (snd (fixLoop w tr testCode err attempt)) \<and>
   generated (snd (fixLoop w tr testCode err attempt)) + attempt \<le> max attempt (maxRetries + 1) + generated w"
proof (induction w tr testCode err attempt rule: fixLoop.induct)
  case (1 w tr testCode err attempt)
  show ?case
  proof (cases "attempt \<le> maxRetries")
    case False
    then show ?thesis by (simp add: fixLoop.simps [of w tr testCode err attempt])
  next
    case le: True
    let ?w1 = "w\<lparr>generated := generated w + 1\<rparr>"
    show ?thesis
    proof (cases "backend w (generated w) testCode err")
      case None
      from "1.IH"(1) [OF le refl None]
      show ?thesis using le None
        by (simp add: fixLoop.simps [of w tr testCode err attempt] max_def split: if_splits)
    next
      case (Some fixedCode)
      show ?thesis
      proof (cases "writable ?w1 (testFile tr)")
        case wr: False
        from "1.IH"(3) [OF le refl Some wr]
        show ?thesis using le Some wr
          by (simp add: fixLoop.simps [of w tr testCode err attempt] max_def split: if_splits)
      next
        case wr: True
        let ?w2 = "?w1\<lparr>files := (files ?w1)(testFile tr := Inr fixedCode)\<rparr>"
        show ?thesis
        proof (cases "isValidTestCode fixedCode")
          case True
          then show ?thesis using le Some wr
            by (simp add: fixLoop.simps [of w tr testCode err attempt] max_def)
        next
          case nv: False
          from "1.IH"(2) [OF le refl Some wr refl nv]
          show ?thesis using le Some wr nv
            by (simp add: fixLoop.simps [of w tr testCode err attempt] max_def split: if_splits)
        qed
      qed
    qed
  qed
qed

lemma attemptFix_generated:
  "generated w \<le> generated (snd (attemptFix w tr)) \<and>
   generated (snd (attemptFix w tr)) \<le> generated w + 3"
proof -
  have "generated w \<le> generated (snd (fixLoop w tr testCode err 1)) \<and>
        generated (snd (fixLoop w tr testCode err 1)) \<le> generated w + 3" for testCode err
    using fixLoop_generated [of w tr testCode err 1] by (simp add: maxRetries_def)
  then show ?thesis
    by (simp add: attemptFix_def split: option.splits sum.splits)
qed

text \<open>
  The bound is attained: when the result has an error message, its test file can be read
  and every call of the backend throws, the three attempts are made and the fix fails.
\<close>

lemma attemptFix_exhausted:
  assumes "error tr = Some err" and "err \<noteq> []" and "files w (testFile tr) = Inr code"
    and "\<And>k c e. backend w k c e = None"
  shows "attemptFix w tr =
     (\<lparr>fixed = False, reason = Some ''Max retries exceeded''\<rparr>, w\<lparr>generated := generated w + 3\<rparr>)"
proof -
  have step: "fixLoop v tr code err n = fixLoop (v\<lparr>generated := generated v + 1\<rparr>) tr code err (n + 1)"
    if "n \<le> 3" and "backend v = backend w" for v n
    using that assms(4) by (subst fixLoop.simps) (simp add: maxRetries_def)
  have stop: "fixLoop v tr code err (Suc (Suc (Suc (Suc 0)))) =
      (\<lparr>fixed = False, reason = Some ''Max retries exceeded''\<rparr>, v)" for v
    by (subst fixLoop.simps) (simp add: maxRetries_def)
  have "fixLoop w tr code err 1 =
      (\<lparr>fixed = False, reason = Some ''Max retries exceeded''\<rparr>, w\<lparr>generated := generated w + 3\<rparr>)"
    by (simp add: step stop numeral_3_eq_3)
  then show ?thesis using assms(1,2,3) by (simp add: attemptFix_def)
qed

lemma analyzeLoop_count:
  "analyzeLoop w ts n iss = ((n', iss'), w') \<Longrightarrow> n' + length iss' = n + length iss + length ts"
proof (induction ts arbitrary: w n iss)
  case Nil
  then show ?case by simp
next
  case (Cons t ts)
  obtain fr w1 where af: "attemptFix w t = (fr, w1)" by (cases "attemptFix w t")
  show ?case
  proof (cases "fixed fr")
    case True
    with Cons.prems af have "analyzeLoop w1 ts (n + 1) iss = ((n', iss'), w')" by simp
    from Cons.IH [OF this] show ?thesis by simp
  next
    case False
    with Cons.prems af
    have "analyzeLoop w1 ts n (iss @ [createIssue t (reason fr)]) = ((n', iss'), w')" by simp
    from Cons.IH [OF this] show ?thesis by simp
  qed
qed

lemma length_fixRun: "length (fixRun w ts) = length ts"
  by (induction ts arbitrary: w) (simp_all split: prod.splits)

lemma analyzeLoop_fixRun:
  "fst (analyzeLoop w ts n iss) =
     (n + length (filter fixed (fixRun w ts)),
      iss @ map (\<lambda>(t, fr). createIssue t (reason fr))
              (filter (\<lambda>(t, fr). \<not> fixed fr) (zip ts (fixRun w ts))))"
proof (induction ts arbitrary: w n iss)
  case Nil
  then show ?case by simp
next
  case (Cons t ts)
  obtain fr w1 where af: "attemptFix w t = (fr, w1)" by (cases "attemptFix w t")
  show ?case
  proof (cases "fixed fr")
    case True
    then show ?thesis using af Cons.IH [of w1 "n + 1" iss] by simp
  next
    case False
    then show ?thesis
      using af Cons.IH [of w1 n "iss @ [createIssue t (reason fr)]"] by simp
  qed
qed

lemma fixLoop_fixed:
  "fixed (fst (fixLoop w tr testCode err attempt)) \<Longrightarrow>
   (\<exists>code. files (snd (fixLoop w tr testCode err attempt)) (testFile tr) = Inr code \<and>
      isValidTestCode code) \<and>
   generated w < generated (snd (fixLoop w tr testCode err attempt))"
proof (induction w tr testCode err attempt rule: fixLoop.induct)
  case (1 w tr testCode err attempt)
  note f = "1.prems"
  show ?case
  proof (cases "attempt \<le> maxRetries")
    case False
    then show ?thesis using f by (simp add: fixLoop.simps [of w tr testCode err attempt])
  next
    case le: True
    let ?w1 = "w\<lparr>generated := generated w + 1\<rparr>"
    show ?thesis
    proof (cases "backend w (generated w) testCode err")
      case None
      have eq: "fixLoop w tr testCode err attempt = fixLoop ?w1 tr testCode err (attempt + 1)"
        using le None by (simp add: fixLoop.simps [of w tr testCode err attempt])
      from "1.IH"(1) [OF le refl None] f eq show ?thesis by auto
    next
      case (Some fixedCode)
      show ?thesis
      proof (cases "writable ?w1 (testFile tr)")
        case wr: False
        have eq: "fixLoop w tr testCode err attempt = fixLoop ?w1 tr testCode err (attempt + 1)"
          using le Some wr by (simp add: fixLoop.simps [of w tr testCode err attempt])
        from "1.IH"(3) [OF le refl Some wr] f eq show ?thesis by auto
      next
        case wr: True
        let ?w2 = "?w1\<lparr>files := (files ?w1)(testFile tr := Inr fixedCode)\<rparr>"
        show ?thesis
        proof (cases "isValidTestCode fixedCode")
          case True
          then show ?thesis using le Some wr
            by (simp add: fixLoop.simps [of w tr testCode err attempt])
        next
          case nv: False
          have eq: "fixLoop w tr testCode err attempt = fixLoop ?w2 tr testCode err (attempt + 1)"
            using le Some wr nv by (simp add: fixLoop.simps [of w tr testCode err attempt])
          from "1.IH"(2) [OF le refl Some wr refl nv] f eq show ?thesis by auto
        qed
      qed
    qed
  qed
qed

lemma attemptFix_fixed:
  "fixed (fst (attemptFix w tr)) \<Longrightarrow>
   (\<exists>code. files (snd (attemptFix w tr)) (testFile tr) = Inr code \<and> isValidTestCode code) \<and>
   generated w < generated (snd (attemptFix w tr))"
  using fixLoop_fixed [of w tr _ _ 1]
  by (auto simp: attemptFix_def split: option.splits sum.splits if_splits)

text \<open>
  C2: one call of \<open>attemptFix\<close> makes at most 3 calls of the generative backend,
  whatever the backend and the file system answer, and it marks a result as fixed only
  after a call whose answer has passed the structural gate and has been written to the
  test file.  \<open>analyze\<close> runs \<open>attemptFix\<close> once on every failed result, in their
  order; the number of fixed tests is the number of those runs that ended fixed, and the
  issues are, in the same order, exactly one issue for every failed result whose run did
  not end fixed, made by \<open>createIssue\<close> from that result and the reason of the run: it
  carries the test file and the error message of the result.  So the number of fixed
  tests plus the number of issues is the number of failed results.
\<close>

theorem remediation_bounded_and_complete:
  "generated (snd (attemptFix w tr)) \<le> generated w + 3 \<and>
   fixedTests (fst (analyze w testResults)) + length (issues (fst (analyze w testResults))) =
     length (filter (\<lambda>r. \<not> passed r) (results testResults)) \<and>
   length (fixRun w (filter (\<lambda>r. \<not> passed r) (results testResults))) =
     length (filter (\<lambda>r. \<not> passed r) (results testResults)) \<and>
   fixedTests (fst (analyze w testResults)) =
     length (filter fixed (fixRun w (filter (\<lambda>r. \<not> passed r) (results testResults)))) \<and>
   issues (fst (analyze w testResults)) =
     map (\<lambda>(t, fr). createIssue t (reason fr))
       (filter (\<lambda>(t, fr). \<not> fixed fr)
          (zip (filter (\<lambda>r. \<not> passed r) (results testResults))
               (fixRun w (filter (\<lambda>r. \<not> passed r) (results testResults))))) \<and>
   issueTestFile (createIssue t why) = testFile t \<and>
   message (createIssue t why) = (case error t of None \<Rightarrow> [] | Some e \<Rightarrow> e) \<and>
   suggestion (createIssue t why) = why \<and>
   (fixed (fst (attemptFix w tr)) \<longrightarrow>
      (\<exists>code. files (snd (attemptFix w tr)) (testFile tr) = Inr code \<and> isValidTestCode code) \<and>
      generated w < generated (snd (attemptFix w tr)))"
proof -
  let ?failed = "filter (\<lambda>r. \<not> passed r) (results testResults)"
  obtain n iss w' where al: "analyzeLoop w ?failed 0 [] = ((n, iss), w')"
    by (metis surj_pair)
  have r: "fixedTests (fst (analyze w testResults)) = n" "issues (fst (analyze w testResults)) = iss"
    using al by (simp_all add: analyze_def)
  from analyzeLoop_count [OF al]
  have count: "fixedTests (fst (analyze w testResults)) + length (issues (fst (analyze w testResults))) =
     length ?failed"
    using r by simp
  from analyzeLoop_fixRun [of w ?failed 0 "[]"] al
  have run: "n = length (filter fixed (fixRun w ?failed))"
    "iss = map (\<lambda>(t, fr). createIssue t (reason fr))
       (filter (\<lambda>(t, fr). \<not> fixed fr) (zip ?failed (fixRun w ?failed)))"
    by simp_all
  have ci: "issueTestFile (createIssue t why) = testFile t \<and>
   message (createIssue t why) = (case error t of None \<Rightarrow> [] | Some e \<Rightarrow> e) \<and>
   suggestion (createIssue t why) = why"
    by (simp add: createIssue_def Let_def)
  show ?thesis
    using attemptFix_generated [of w tr] count length_fixRun [of w ?failed] run r ci
      attemptFix_fixed [of w tr]
    by (intro conjI impI) simp_all
qed

lemmas fix_eval =
  attemptFix_def secondTry_def failedA_def failedB_def passedC_def exampleRun_def
  maxRetries_def isValidTestCode_def

lemma secondTry_attempt:
  "fixed (fst (attemptFix secondTry failedA))"
  "generated (snd (attemptFix secondTry failedA)) = 2"
  "files (snd (attemptFix secondTry failedA)) ''a.test.ts'' = Inr ''@playwright/test test( request''"
  by (simp_all add: fix_eval fixLoop.simps [of _ _ _ _ "Suc 0"] fixLoop.simps [of _ _ _ _ "Suc (Suc 0)"])

lemma secondTry_run:
  "fixedTests (fst (analyze secondTry exampleRun)) = 1"
  "map issueTestFile (issues (fst (analyze secondTry exampleRun))) = [''b.test.ts'']"
  "map suggestion (issues (fst (analyze secondTry exampleRun))) = [Some ''No error message available'']"
  by (simp_all add: analyze_def fix_eval createIssue_def
      fixLoop.simps [of _ _ _ _ "Suc 0"] fixLoop.simps [of _ _ _ _ "Suc (Suc 0)"])

text \<open>
  A run with one passed and two failed results.  The first failed result has no error
  message and gets its issue; the second is fixed at the second attempt.
\<close>

theorem remediation_bounded_and_complete_witness:
  "fixed (fst (attemptFix secondTry failedA)) \<and>
   generated (snd (attemptFix secondTry failedA)) = 2 \<and>
   (\<exists>code. files (snd (attemptFix secondTry failedA)) (testFile failedA) = Inr code \<and>
      isValidTestCode code) \<and>
   fixedTests (fst (analyze secondTry exampleRun)) = 1 \<and>
   map issueTestFile (issues (fst (analyze secondTry exampleRun))) = [''b.test.ts''] \<and>
   fixedTests (fst (analyze secondTry exampleRun)) + length (issues (fst (analyze secondTry exampleRun))) =
     length (filter (\<lambda>r. \<not> passed r) (results exampleRun))"
proof -
  note inst = remediation_bounded_and_complete [of secondTry failedA exampleRun failedA None]
  have gate: "\<exists>code. files (snd (attemptFix secondTry failedA)) (testFile failedA) = Inr code \<and>
      isValidTestCode code"
    using inst secondTry_attempt(1) by blast
  have count: "fixedTests (fst (analyze secondTry exampleRun)) +
      length (issues (fst (analyze secondTry exampleRun))) =
     length (filter (\<lambda>r. \<not> passed r) (results exampleRun))"
    using inst by blast
  from secondTry_attempt(1,2) gate secondTry_run(1,2) count show ?thesis by blast
qed

section \<open>The metric of twenty equal latencies\<close>

lemma sort_replicate: "sort (replicate n (x::real)) = replicate n x"
  by (simp add: sorted_sort_id)

lemma sum_list_replicate_real: "sum_list (replicate n (x::real)) = real n * x"
  by (induction n) (simp_all add: algebra_simps)

text \<open>
  C9: for 20 latency samples that are all 100, the average, the minimum, the maximum and
  the two percentiles are 100, both percentile indices are 19 (the floors of
  \<open>0.95 * 20 = 19\<close> and of \<open>0.99 * 20 = 19.8\<close>), and the status is \<open>fast\<close>.  The code
  produces this batch when the 20 requests took 2000 ms together.
\<close>

theorem equal_latencies_metric:
  "averageLatency (computeMetric p m (replicate 20 100) t) = 100 \<and>
   minLatency (computeMetric p m (replicate 20 100) t) = 100 \<and>
   maxLatency (computeMetric p m (replicate 20 100) t) = 100 \<and>
   p95Latency (computeMetric p m (replicate 20 100) t) = 100 \<and>
   p99Latency (computeMetric p m (replicate 20 100) t) = 100 \<and>
   p95Index (sort (replicate 20 100)) = 19 \<and>
   p99Index (sort (replicate 20 100)) = 19 \<and>
   slowRequests (computeMetric p m (replicate 20 100) t) = 0 \<and>
   status (computeMetric p m (replicate 20 100) t) = fast \<and>
   testEndpointPerformance p m 2000 = computeMetric p m (replicate 20 100) 2000"
  by (simp add: computeMetric_def testEndpointPerformance_def sort_replicate Let_def
      sum_list_replicate_real entry_or_zero_def p95Index_def p99Index_def concurrentRequests_def targetLatency_def)

section \<open>What the patterns of the SQL probe match\<close>

lemma includes_js_map: "includes_js s n \<Longrightarrow> includes_js (map f s) (map f n)"
  unfolding includes_js_iff by (metis map_append)

lemma ora_digits_iff:
  "ora_digits s \<longleftrightarrow> (\<exists>ps d ss. s = ps @ ''ora-'' @ d # ss \<and> is_digit d)"
proof (induction s)
  case Nil
  then show ?case by simp
next
  case (Cons c cs)
  have here: "(startsWith (c # cs) ''ora-'' \<and> (case drop 4 (c # cs) of [] \<Rightarrow> False | d # ds \<Rightarrow> is_digit d))
     \<longleftrightarrow> (\<exists>d ss. c # cs = ''ora-'' @ d # ss \<and> is_digit d)"
    unfolding startsWith_iff by (auto split: list.splits)
  show ?case
  proof
    assume "ora_digits (c # cs)"
    then consider "\<exists>d ss. c # cs = ''ora-'' @ d # ss \<and> is_digit d" | "ora_digits cs"
      using here by auto
    then show "\<exists>ps d ss. c # cs = ps @ ''ora-'' @ d # ss \<and> is_digit d"
    proof cases
      case 1
      then obtain d ss where "c # cs = [] @ ''ora-'' @ d # ss \<and> is_digit d" by auto
      then show ?thesis by blast
    next
      case 2
      then obtain ps d ss where "cs = ps @ ''ora-'' @ d # ss \<and> is_digit d" using Cons.IH by blast
      then have "c # cs = (c # ps) @ ''ora-'' @ d # ss \<and> is_digit d" by simp
      then show ?thesis by blast
    qed
  next
    assume "\<exists>ps d ss. c # cs = ps @ ''ora-'' @ d # ss \<and> is_digit d"
    then obtain ps d ss where eq: "c # cs = ps @ ''ora-'' @ d # ss" and d: "is_digit d" by blast
    show "ora_digits (c # cs)"
    proof (cases ps)
      case Nil
      with eq d have "\<exists>d ss. c # cs = ''ora-'' @ d # ss \<and> is_digit d" by auto
      then show ?thesis using here by simp
    next
      case (Cons p ps')
      with eq have "cs = ps' @ ''ora-'' @ d # ss" by simp
      then have "ora_digits cs" using Cons.IH d by blast
      then show ?thesis by simp
    qed
  qed
qed

lemma includes_takeWhile:
  assumes "list_all P n"
  shows "includes_js (takeWhile P s) n \<longleftrightarrow> (\<exists>mid ss. s = mid @ n @ ss \<and> list_all P mid)"
proof
  assume "includes_js (takeWhile P s) n"
  then obtain ps ss where eq: "takeWhile P s = ps @ n @ ss" unfolding includes_js_iff by blast
  have "s = takeWhile P s @ dropWhile P s" by simp
  then have "s = ps @ n @ (ss @ dropWhile P s)" using eq by simp
  moreover have "list_all P ps"
    using eq by (metis list_all_append list_all_iff set_takeWhileD)
  ultimately show "\<exists>mid ss. s = mid @ n @ ss \<and> list_all P mid" by blast
next
  assume "\<exists>mid ss. s = mid @ n @ ss \<and> list_all P mid"
  then obtain mid ss where eq: "s = mid @ n @ ss" and m: "list_all P mid" by blast
  have "list_all P (mid @ n)" using m assms by simp
  then have "takeWhile P s = (mid @ n) @ takeWhile P ss"
    using eq by (simp add: takeWhile_append2 list_all_iff)
  then show "includes_js (takeWhile P s) n" unfolding includes_js_iff by (metis append.assoc)
qed

lemma syntax_error_sql_iff:
  "syntax_error_sql s \<longleftrightarrow>
     (\<exists>ps mid ss. s = ps @ ''syntax error'' @ mid @ ''sql'' @ ss \<and>
        list_all (\<lambda>x. \<not> is_line_terminator x) mid)"
proof (induction s)
  case Nil
  then show ?case by simp
next
  case (Cons c cs)
  have sql: "list_all (\<lambda>x. \<not> is_line_terminator x) ''sql''"
    by (simp add: is_line_terminator_def)
  have "(startsWith (c # cs) ''syntax error'' \<and>
       includes_js (takeWhile (\<lambda>x. \<not> is_line_terminator x) (drop 12 (c # cs))) ''sql'')
     \<longleftrightarrow> (\<exists>rest. c # cs = ''syntax error'' @ rest \<and>
           includes_js (takeWhile (\<lambda>x. \<not> is_line_terminator x) rest) ''sql'')"
    unfolding startsWith_iff by auto
  also have "\<dots> \<longleftrightarrow> (\<exists>rest. c # cs = ''syntax error'' @ rest \<and>
           (\<exists>mid ss. rest = mid @ ''sql'' @ ss \<and> list_all (\<lambda>x. \<not> is_line_terminator x) mid))"
    unfolding includes_takeWhile [OF sql] ..
  also have "\<dots> \<longleftrightarrow> (\<exists>mid ss. c # cs = ''syntax error'' @ mid @ ''sql'' @ ss \<and>
        list_all (\<lambda>x. \<not> is_line_terminator x) mid)"
    by blast
  finally have here: "(startsWith (c # cs) ''syntax error'' \<and>
       includes_js (takeWhile (\<lambda>x. \<not> is_line_terminator x) (drop 12 (c # cs))) ''sql'')
     \<longleftrightarrow> (\<exists>mid ss. c # cs = ''syntax error'' @ mid @ ''sql'' @ ss \<and>
        list_all (\<lambda>x. \<not> is_line_terminator x) mid)" .
  show ?case
  proof
    assume "syntax_error_sql (c # cs)"
    then consider "\<exists>mid ss. c # cs = ''syntax error'' @ mid @ ''sql'' @ ss \<and>
        list_all (\<lambda>x. \<not> is_line_terminator x) mid" | "syntax_error_sql cs"
      using here by auto
    then show "\<exists>ps mid ss. c # cs = ps @ ''syntax error'' @ mid @ ''sql'' @ ss \<and>
        list_all (\<lambda>x. \<not> is_line_terminator x) mid"
    proof cases
      case 1
      then obtain mid ss where "c # cs = [] @ ''syntax error'' @ mid @ ''sql'' @ ss \<and>
        list_all (\<lambda>x. \<not> is_line_terminator x) mid" by auto
      then show ?thesis by blast
    next
      case 2
      then obtain ps mid ss where "cs = ps @ ''syntax error'' @ mid @ ''sql'' @ ss \<and>
        list_all (\<lambda>x. \<not> is_line_terminator x) mid" using Cons.IH by blast
      then have "c # cs = (c # ps) @ ''syntax error'' @ mid @ ''sql'' @ ss \<and>
        list_all (\<lambda>x. \<not> is_line_terminator x) mid" by simp
      then show ?thesis by blast
    qed
  next
    assume "\<exists>ps mid ss. c # cs = ps @ ''syntax error'' @ mid @ ''sql'' @ ss \<and>
        list_all (\<lambda>x. \<not> is_line_terminator x) mid"
    then obtain ps mid ss where eq: "c # cs = ps @ ''syntax error'' @ mid @ ''sql'' @ ss"
      and m: "list_all (\<lambda>x. \<not> is_line_terminator x) mid" by blast
    show "syntax_error_sql (c # cs)"
    proof (cases ps)
      case Nil
      with eq m have "\<exists>mid ss. c # cs = ''syntax error'' @ mid @ ''sql'' @ ss \<and>
        list_all (\<lambda>x. \<not> is_line_terminator x) mid" by auto
      then show ?thesis using here by simp
    next
      case (Cons p ps')
      with eq have "cs = ps' @ ''syntax error'' @ mid @ ''sql'' @ ss" by simp
      then have "syntax_error_sql cs" using Cons.IH m by blast
      then show ?thesis by simp
    qed
  qed
qed

lemma detect_iff:
  "detectSQLInjectionVulnerability body st \<longleftrightarrow>
     (st = 200 \<or> st = 500) \<and> list_ex (\<lambda>pattern. pattern body) sqlErrorPatterns"
  by (simp add: detectSQLInjectionVulnerability_def)

lemma fingerprint_iff:
  "list_ex (\<lambda>pattern. pattern body) sqlErrorPatterns \<longleftrightarrow>
     ((\<exists>ps ss. toLowerCase body = ps @ ''sql syntax'' @ ss) \<or>
      (\<exists>ps ss. toLowerCase body = ps @ ''mysql'' @ ss) \<or>
      (\<exists>ps ss. toLowerCase body = ps @ ''postgresql'' @ ss) \<or>
      (\<exists>ps ss. toLowerCase body = ps @ ''sqlite'' @ ss) \<or>
      (\<exists>ps d ss. toLowerCase body = ps @ ''ora-'' @ d # ss \<and> is_digit d) \<or>
      (\<exists>ps ss. toLowerCase body = ps @ ''sqlstate'' @ ss) \<or>
      (\<exists>ps mid ss. toLowerCase body = ps @ ''syntax error'' @ mid @ ''sql'' @ ss \<and>
         list_all (\<lambda>x. \<not> is_line_terminator x) mid))"
  unfolding sqlErrorPatterns_def test_icase_def includes_js_iff ora_digits_iff syntax_error_sql_iff
  by simp

lemma sql_syntax_lower: "includes_js body ''SQL syntax'' \<Longrightarrow> test_icase ''sql syntax'' body"
proof -
  assume "includes_js body ''SQL syntax''"
  from includes_js_map [OF this, of lower_char]
  show ?thesis by (simp add: test_icase_def toLowerCase_def lower_char_def)
qed

section \<open>Classification of the injection probes\<close>

lemma makeRequest_send:
  "makeRequest t ep (getHeaders t ep) dat w = send t w (requestFor t ep dat)"
  by (simp add: makeRequest_def requestFor_def Let_def)

lemma payloadLoop_exchanges:
  "fst (payloadLoop t ep mkData mkIssue ps w) =
     concat (map (\<lambda>(p, answer).
                    case answer of
                      None \<Rightarrow> []
                    | Some resp \<Rightarrow>
                        (case text_of resp of
                           None \<Rightarrow> []
                         | Some body \<Rightarrow> [mkIssue p (status_of resp) body]))
                 (exchanges t ep mkData ps w))"
proof (induction ps arbitrary: w)
  case Nil
  then show ?case by simp
next
  case (Cons p ps)
  obtain answer w1 where s: "send t w (requestFor t ep (mkData p)) = (answer, w1)"
    by (metis surj_pair)
  obtain found w2 where f: "payloadLoop t ep mkData mkIssue ps w1 = (found, w2)"
    by (metis surj_pair)
  from Cons.IH [of w1] f s show ?case
    by (simp add: makeRequest_send split: option.splits)
qed

lemma exchanges_payloads: "map fst (exchanges t ep mkData ps w) = ps"
  by (induction ps arbitrary: w) (simp_all split: prod.splits)

lemma payloadLoop_constant:
  assumes "\<forall>v r. fst (send t v r) = Some \<lparr>status_of = st, text_of = Some body\<rparr>"
  shows "fst (payloadLoop t ep mkData mkIssue ps w) = map (\<lambda>p. mkIssue p st body) ps"
proof (induction ps arbitrary: w)
  case Nil
  then show ?case by simp
next
  case (Cons p ps)
  obtain answer w1 where s: "send t w (requestFor t ep (mkData p)) = (answer, w1)"
    by (metis surj_pair)
  then have a: "answer = Some \<lparr>status_of = st, text_of = Some body\<rparr>"
    using assms by (metis fst_conv)
  obtain found w2 where f: "payloadLoop t ep mkData mkIssue ps w1 = (found, w2)"
    by (metis surj_pair)
  from Cons.IH [of w1] f s a show ?case
    by (simp add: makeRequest_send)
qed

text \<open>
  C4: \<open>testSQLInjection\<close> sends each of the five payloads in turn, as the fields
  \<open>query\<close>, \<open>id\<close> and \<open>search\<close>, and reports one issue for every payload whose request
  is answered with a body, made from the status and the body of that answer.  The issue
  is vulnerable exactly when the status is 200 or 500 and the body matches one of the
  seven fingerprints: ignoring case, it holds \<open>sql syntax\<close>, \<open>mysql\<close>, \<open>postgresql\<close>,
  \<open>sqlite\<close>, \<open>ora-\<close> followed by a digit, \<open>sqlstate\<close>, or \<open>syntax error\<close> followed on
  the same line by \<open>sql\<close>.  Its severity is \<open>high\<close> when vulnerable and \<open>low\<close>
  otherwise.  In particular, against a target that answers with status 200 and a body
  that holds \<open>SQL syntax\<close>, every payload is reported vulnerable with severity \<open>high\<close>,
  and against a target whose body matches no fingerprint every payload is reported not
  vulnerable.
\<close>

theorem sql_injection_classification:
  "(detectSQLInjectionVulnerability body st \<longleftrightarrow>
      (st = 200 \<or> st = 500) \<and>
      ((\<exists>ps ss. toLowerCase body = ps @ ''sql syntax'' @ ss) \<or>
       (\<exists>ps ss. toLowerCase body = ps @ ''mysql'' @ ss) \<or>
       (\<exists>ps ss. toLowerCase body = ps @ ''postgresql'' @ ss) \<or>
       (\<exists>ps ss. toLowerCase body = ps @ ''sqlite'' @ ss) \<or>
       (\<exists>ps d ss. toLowerCase body = ps @ ''ora-'' @ d # ss \<and> is_digit d) \<or>
       (\<exists>ps ss. toLowerCase body = ps @ ''sqlstate'' @ ss) \<or>
       (\<exists>ps mid ss. toLowerCase body = ps @ ''syntax error'' @ mid @ ''sql'' @ ss \<and>
          list_all (\<lambda>x. \<not> is_line_terminator x) mid))) \<and>
   vulnerable (response (sqlIssue ep p st body)) = detectSQLInjectionVulnerability body st \<and>
   severity (sqlIssue ep p st body) =
     (if detectSQLInjectionVulnerability body st then high else low) \<and>
   (includes_js body ''SQL syntax'' \<longrightarrow>
      vulnerable (response (sqlIssue ep p 200 body)) \<and> severity (sqlIssue ep p 200 body) = high) \<and>
   (\<not> list_ex (\<lambda>pattern. pattern body) sqlErrorPatterns \<longrightarrow>
      \<not> vulnerable (response (sqlIssue ep p st body)) \<and> severity (sqlIssue ep p st body) = low) \<and>
   payload (sqlIssue ep p st body) = p \<and> kind (sqlIssue ep p st body) = sql_injection \<and>
   siEndpoint (sqlIssue ep p st body) = path ep \<and> siMethod (sqlIssue ep p st body) = method_of ep \<and>
   irStatus (response (sqlIssue ep p st body)) = st \<and>
   fst (testSQLInjection t ep w) =
     concat (map (\<lambda>(p, answer).
                    case answer of
                      None \<Rightarrow> []
                    | Some resp \<Rightarrow>
                        (case text_of resp of
                           None \<Rightarrow> []
                         | Some body \<Rightarrow> [sqlIssue ep p (status_of resp) body]))
                 (exchanges t ep
                    (\<lambda>p. JObj [(''query'', JStr p), (''id'', JStr p), (''search'', JStr p)])
                    sqlPayloads w)) \<and>
   map fst (exchanges t ep
              (\<lambda>p. JObj [(''query'', JStr p), (''id'', JStr p), (''search'', JStr p)])
              sqlPayloads w) = sqlPayloads \<and>
   ((\<forall>v r. fst (send t v r) = Some \<lparr>status_of = st, text_of = Some body\<rparr>) \<longrightarrow>
      map (\<lambda>i. (payload i, vulnerable (response i), severity i)) (fst (testSQLInjection t ep w)) =
        map (\<lambda>p. (p, detectSQLInjectionVulnerability body st,
                   if detectSQLInjectionVulnerability body st then high else low)) sqlPayloads) \<and>
   ((\<forall>v r. fst (send t v r) = Some \<lparr>status_of = 200, text_of = Some body\<rparr>) \<and>
      includes_js body ''SQL syntax'' \<longrightarrow>
      map (\<lambda>i. (payload i, vulnerable (response i), severity i)) (fst (testSQLInjection t ep w)) =
        map (\<lambda>p. (p, True, high)) sqlPayloads) \<and>
   ((\<forall>v r. fst (send t v r) = Some \<lparr>status_of = st, text_of = Some body\<rparr>) \<and>
      \<not> list_ex (\<lambda>pattern. pattern body) sqlErrorPatterns \<longrightarrow>
      map (\<lambda>i. (payload i, vulnerable (response i), severity i)) (fst (testSQLInjection t ep w)) =
        map (\<lambda>p. (p, False, low)) sqlPayloads)"
proof -
  have a: "detectSQLInjectionVulnerability body st \<longleftrightarrow>
      (st = 200 \<or> st = 500) \<and>
      ((\<exists>ps ss. toLowerCase body = ps @ ''sql syntax'' @ ss) \<or>
       (\<exists>ps ss. toLowerCase body = ps @ ''mysql'' @ ss) \<or>
       (\<exists>ps ss. toLowerCase body = ps @ ''postgresql'' @ ss) \<or>
       (\<exists>ps ss. toLowerCase body = ps @ ''sqlite'' @ ss) \<or>
       (\<exists>ps d ss. toLowerCase body = ps @ ''ora-'' @ d # ss \<and> is_digit d) \<or>
       (\<exists>ps ss. toLowerCase body = ps @ ''sqlstate'' @ ss) \<or>
       (\<exists>ps mid ss. toLowerCase body = ps @ ''syntax error'' @ mid @ ''sql'' @ ss \<and>
          list_all (\<lambda>x. \<not> is_line_terminator x) mid))"
    unfolding detect_iff fingerprint_iff ..
  have b: "vulnerable (response (sqlIssue ep p s body)) = detectSQLInjectionVulnerability body s \<and>
     severity (sqlIssue ep p s body) = (if detectSQLInjectionVulnerability body s then high else low)"
    for s p
    by (simp add: sqlIssue_def Let_def)
  have c: "detectSQLInjectionVulnerability body 200" if "includes_js body ''SQL syntax''"
    using sql_syntax_lower [OF that] by (simp add: detect_iff sqlErrorPatterns_def)
  have d: "\<not> detectSQLInjectionVulnerability body st"
    if "\<not> list_ex (\<lambda>pattern. pattern body) sqlErrorPatterns"
    using that by (simp add: detect_iff)
  have e: "vulnerable (response (sqlIssue ep p 200 body)) \<and> severity (sqlIssue ep p 200 body) = high"
    if "includes_js body ''SQL syntax''"
    using c [OF that] b [of p 200] by simp
  have f: "\<not> vulnerable (response (sqlIssue ep p st body)) \<and> severity (sqlIssue ep p st body) = low"
    if "\<not> list_ex (\<lambda>pattern. pattern body) sqlErrorPatterns"
    using d [OF that] b [of p st] by simp
  have g: "payload (sqlIssue ep p st body) = p \<and> kind (sqlIssue ep p st body) = sql_injection \<and>
   siEndpoint (sqlIssue ep p st body) = path ep \<and> siMethod (sqlIssue ep p st body) = method_of ep \<and>
   irStatus (response (sqlIssue ep p st body)) = st"
    by (simp add: sqlIssue_def Let_def)
  have h: "fst (testSQLInjection t ep w) =
     concat (map (\<lambda>(p, answer).
                    case answer of
                      None \<Rightarrow> []
                    | Some resp \<Rightarrow>
                        (case text_of resp of
                           None \<Rightarrow> []
                         | Some body \<Rightarrow> [sqlIssue ep p (status_of resp) body]))
                 (exchanges t ep
                    (\<lambda>p. JObj [(''query'', JStr p), (''id'', JStr p), (''search'', JStr p)])
                    sqlPayloads w))"
    unfolding testSQLInjection_def by (rule payloadLoop_exchanges)
  have i: "map fst (exchanges t ep
              (\<lambda>p. JObj [(''query'', JStr p), (''id'', JStr p), (''search'', JStr p)])
              sqlPayloads w) = sqlPayloads"
    by (rule exchanges_payloads)
  have j: "map (\<lambda>i. (payload i, vulnerable (response i), severity i)) (fst (testSQLInjection t ep w)) =
        map (\<lambda>p. (p, detectSQLInjectionVulnerability body s,
                   if detectSQLInjectionVulnerability body s then high else low)) sqlPayloads"
    if "\<forall>v r. fst (send t v r) = Some \<lparr>status_of = s, text_of = Some body\<rparr>" for s
    unfolding testSQLInjection_def payloadLoop_constant [OF that]
    by (simp add: sqlIssue_def Let_def comp_def)
  have k: "map (\<lambda>i. (payload i, vulnerable (response i), severity i)) (fst (testSQLInjection t ep w)) =
        map (\<lambda>p. (p, True, high)) sqlPayloads"
    if "(\<forall>v r. fst (send t v r) = Some \<lparr>status_of = 200, text_of = Some body\<rparr>) \<and>
      includes_js body ''SQL syntax''"
    using j [of 200] c that by simp
  have l: "map (\<lambda>i. (payload i, vulnerable (response i), severity i)) (fst (testSQLInjection t ep w)) =
        map (\<lambda>p. (p, False, low)) sqlPayloads"
    if "(\<forall>v r. fst (send t v r) = Some \<lparr>status_of = st, text_of = Some body\<rparr>) \<and>
      \<not> list_ex (\<lambda>pattern. pattern body) sqlErrorPatterns"
    using j [of st] d that by simp
  from a b [of p st] e f g h i j [of st] k l show ?thesis by blast
qed

text \<open>
  The two cases of C4 on the five payloads, the first of which is \<open>' OR 1=1 --\<close>: a
  target that answers with the error page of a database and status 200, and a target
  that answers \<open>No results\<close> with status 200.
\<close>

theorem sql_injection_classification_witness:
  "sqlPayloads ! 0 = squote # '' OR 1=1 --'' \<and>
   includes_js ''You have an error in your SQL syntax'' ''SQL syntax'' \<and>
   map (\<lambda>i. (payload i, vulnerable (response i), severity i))
     (fst (testSQLInjection \<lparr>baseURL = ''http://x.test'', authToken = None, send = sqlErrorTarget\<rparr>
        postItems ())) =
     map (\<lambda>p. (p, True, high)) sqlPayloads \<and>
   vulnerable (response (sqlIssue postItems (sqlPayloads ! 0) 200 ''You have an error in your SQL syntax'')) \<and>
   severity (sqlIssue postItems (sqlPayloads ! 0) 200 ''You have an error in your SQL syntax'') = high \<and>
   \<not> list_ex (\<lambda>pattern. pattern ''No results'') sqlErrorPatterns \<and>
   map (\<lambda>i. (payload i, vulnerable (response i), severity i))
     (fst (testSQLInjection \<lparr>baseURL = ''http://x.test'', authToken = None, send = noResultsTarget\<rparr>
        postItems ())) =
     map (\<lambda>p. (p, False, low)) sqlPayloads \<and>
   \<not> vulnerable (response (sqlIssue postItems (sqlPayloads ! 0) 200 ''No results'')) \<and>
   severity (sqlIssue postItems (sqlPayloads ! 0) 200 ''No results'') = low"
proof -
  let ?e = "\<lparr>baseURL = ''http://x.test'', authToken = None, send = sqlErrorTarget\<rparr>"
  let ?n = "\<lparr>baseURL = ''http://x.test'', authToken = None, send = noResultsTarget\<rparr>"
  have i: "includes_js ''You have an error in your SQL syntax'' ''SQL syntax''" by simp
  have p: "sqlPayloads ! 0 = squote # '' OR 1=1 --''" by (simp add: sqlPayloads_def)
  have n: "\<not> list_ex (\<lambda>pattern. pattern ''No results'') sqlErrorPatterns"
    by (simp add: sqlErrorPatterns_def test_icase_def toLowerCase_def lower_char_def)
  have se: "(\<forall>v r. fst (send ?e v r) =
        Some \<lparr>status_of = 200, text_of = Some ''You have an error in your SQL syntax''\<rparr>) \<and>
      includes_js ''You have an error in your SQL syntax'' ''SQL syntax''"
    by (simp add: sqlErrorTarget_def)
  have sn: "(\<forall>v r. fst (send ?n v r) = Some \<lparr>status_of = 200, text_of = Some ''No results''\<rparr>) \<and>
      \<not> list_ex (\<lambda>pattern. pattern ''No results'') sqlErrorPatterns"
    using n by (simp add: noResultsTarget_def)
  note error_page = sql_injection_classification
    [of "''You have an error in your SQL syntax''" 200 postItems "sqlPayloads ! 0" ?e "()"]
  note no_results = sql_injection_classification
    [of "''No results''" 200 postItems "sqlPayloads ! 0" ?n "()"]
  from error_page i have 1:
    "vulnerable (response (sqlIssue postItems (sqlPayloads ! 0) 200 ''You have an error in your SQL syntax'')) \<and>
     severity (sqlIssue postItems (sqlPayloads ! 0) 200 ''You have an error in your SQL syntax'') = high"
    by blast
  from error_page se have 2:
    "map (\<lambda>i. (payload i, vulnerable (response i), severity i)) (fst (testSQLInjection ?e postItems ())) =
     map (\<lambda>p. (p, True, high)) sqlPayloads"
    by blast
  from no_results n have 3:
    "\<not> vulnerable (response (sqlIssue postItems (sqlPayloads ! 0) 200 ''No results'')) \<and>
     severity (sqlIssue postItems (sqlPayloads ! 0) 200 ''No results'') = low"
    by blast
  from no_results sn have 4:
    "map (\<lambda>i. (payload i, vulnerable (response i), severity i)) (fst (testSQLInjection ?n postItems ())) =
     map (\<lambda>p. (p, False, low)) sqlPayloads"
    by blast
  from p i 1 2 n 3 4 show ?thesis by blast
qed

lemmas xss_eval =
  testXSS_def xssPayloads_def xssIssue_def makeRequest_def getHeaders_def postItems_def
  echoTarget_def warningEchoTarget_def firstField_def toLowerCase_def lower_char_def Let_def

lemma echo_run:
  "map (\<lambda>i. (payload i, vulnerable (response i)))
     (fst (testXSS \<lparr>baseURL = ''http://x.test'', authToken = None, send = echoTarget\<rparr> postItems ())) =
   [(''<script>alert(1)</script>'', True), (''<img src=x onerror=alert(1)>'', True),
    (''javascript:alert(1)'', True), (''<svg onload=alert(1)>'', True)]"
  by (simp add: xss_eval)

lemma warning_echo_run:
  "map (\<lambda>i. (payload i, vulnerable (response i)))
     (fst (testXSS \<lparr>baseURL = ''http://x.test'', authToken = None, send = warningEchoTarget\<rparr>
        postItems ())) =
   [(''<script>alert(1)</script>'', False), (''<img src=x onerror=alert(1)>'', False),
    (''javascript:alert(1)'', False), (''<svg onload=alert(1)>'', False)]"
  by (simp add: xss_eval)

text \<open>
  C5, as stated: for every payload of the catalog the attempt is vulnerable exactly when
  the body holds the payload and does not hold the payload's HTML-escaped form.  The
  code tests for one fixed text, \<open>&lt;script&gt;\<close>, whatever the payload.  Against a
  target that echoes its input, \<open>testXSS\<close> reports all four payloads as vulnerable; the
  third payload has no character to escape, so the body that echoes it holds its escaped
  form too.  Against a target that echoes its input after a warning with an escaped
  script tag, \<open>testXSS\<close> reports no payload as vulnerable; the body then holds the
  fourth payload as it was sent and does not hold the escaped form of that payload.
\<close>

theorem xss_fixed_marker:
  "map (\<lambda>i. (payload i, vulnerable (response i)))
     (fst (testXSS \<lparr>baseURL = ''http://x.test'', authToken = None, send = echoTarget\<rparr> postItems ())) =
   [(''<script>alert(1)</script>'', True), (''<img src=x onerror=alert(1)>'', True),
    (''javascript:alert(1)'', True), (''<svg onload=alert(1)>'', True)] \<and>
   ''javascript:alert(1)'' \<in> set xssPayloads \<and>
   includes_js ''javascript:alert(1)'' (htmlEscaped_spec ''javascript:alert(1)'') \<and>
   vulnerable (response (xssIssue postItems ''javascript:alert(1)'' 200 ''javascript:alert(1)'')) \<and>
   map (\<lambda>i. (payload i, vulnerable (response i)))
     (fst (testXSS \<lparr>baseURL = ''http://x.test'', authToken = None, send = warningEchoTarget\<rparr>
        postItems ())) =
   [(''<script>alert(1)</script>'', False), (''<img src=x onerror=alert(1)>'', False),
    (''javascript:alert(1)'', False), (''<svg onload=alert(1)>'', False)] \<and>
   ''<svg onload=alert(1)>'' \<in> set xssPayloads \<and>
   includes_js (''&lt;script&gt; is not allowed: '' @ ''<svg onload=alert(1)>'') ''<svg onload=alert(1)>'' \<and>
   htmlEscaped_spec ''<svg onload=alert(1)>'' = ''&lt;svg onload=alert(1)&gt;'' \<and>
   \<not> includes_js (''&lt;script&gt; is not allowed: '' @ ''<svg onload=alert(1)>'')
       (htmlEscaped_spec ''<svg onload=alert(1)>'')"
proof -
  have rest: "''javascript:alert(1)'' \<in> set xssPayloads \<and>
   includes_js ''javascript:alert(1)'' (htmlEscaped_spec ''javascript:alert(1)'') \<and>
   vulnerable (response (xssIssue postItems ''javascript:alert(1)'' 200 ''javascript:alert(1)'')) \<and>
   ''<svg onload=alert(1)>'' \<in> set xssPayloads \<and>
   includes_js (''&lt;script&gt; is not allowed: '' @ ''<svg onload=alert(1)>'') ''<svg onload=alert(1)>'' \<and>
   htmlEscaped_spec ''<svg onload=alert(1)>'' = ''&lt;svg onload=alert(1)&gt;'' \<and>
   \<not> includes_js (''&lt;script&gt; is not allowed: '' @ ''<svg onload=alert(1)>'')
       (htmlEscaped_spec ''<svg onload=alert(1)>'')"
    by (simp add: xssPayloads_def xssIssue_def dquote_def squote_def)
  from echo_run warning_echo_run rest show ?thesis by blast
qed

text \<open>
  C5, amended: \<open>testXSS\<close> sends each of the four payloads in turn, as the fields
  \<open>input\<close>, \<open>name\<close> and \<open>content\<close>, and reports one issue for every payload whose
  request is answered with a body.  For every payload, the issue is vulnerable exactly
  when the body of the answer holds the raw payload and does not hold the text
  \<open>&lt;script&gt;\<close>; its severity is \<open>high\<close> when vulnerable and \<open>low\<close> otherwise.
\<close>

theorem xss_classification:
  "(vulnerable (response (xssIssue ep p st body)) \<longleftrightarrow>
      (\<exists>ps ss. body = ps @ p @ ss) \<and> \<not> (\<exists>ps ss. body = ps @ ''&lt;script&gt;'' @ ss)) \<and>
   severity (xssIssue ep p st body) =
     (if vulnerable (response (xssIssue ep p st body)) then high else low) \<and>
   kind (xssIssue ep p st body) = xss \<and> payload (xssIssue ep p st body) = p \<and>
   fst (testXSS t ep w) =
     concat (map (\<lambda>(p, answer).
                    case answer of
                      None \<Rightarrow> []
                    | Some resp \<Rightarrow>
                        (case text_of resp of
                           None \<Rightarrow> []
                         | Some body \<Rightarrow> [xssIssue ep p (status_of resp) body]))
                 (exchanges t ep
                    (\<lambda>p. JObj [(''input'', JStr p), (''name'', JStr p), (''content'', JStr p)])
                    xssPayloads w)) \<and>
   map fst (exchanges t ep
              (\<lambda>p. JObj [(''input'', JStr p), (''name'', JStr p), (''content'', JStr p)])
              xssPayloads w) = xssPayloads \<and>
   ((\<forall>v r. fst (send t v r) = Some \<lparr>status_of = st, text_of = Some body\<rparr>) \<longrightarrow>
      map (\<lambda>i. (payload i, vulnerable (response i), severity i)) (fst (testXSS t ep w)) =
        map (\<lambda>p. (p, includes_js body p \<and> \<not> includes_js body ''&lt;script&gt;'',
                   if includes_js body p \<and> \<not> includes_js body ''&lt;script&gt;''
                   then high else low)) xssPayloads)"
proof -
  have a: "(vulnerable (response (xssIssue ep p st body)) \<longleftrightarrow>
      (\<exists>ps ss. body = ps @ p @ ss) \<and> \<not> (\<exists>ps ss. body = ps @ ''&lt;script&gt;'' @ ss)) \<and>
   severity (xssIssue ep p st body) =
     (if vulnerable (response (xssIssue ep p st body)) then high else low) \<and>
   kind (xssIssue ep p st body) = xss \<and> payload (xssIssue ep p st body) = p"
    unfolding xssIssue_def includes_js_iff [symmetric] by (simp add: Let_def)
  have h: "fst (testXSS t ep w) =
     concat (map (\<lambda>(p, answer).
                    case answer of
                      None \<Rightarrow> []
                    | Some resp \<Rightarrow>
                        (case text_of resp of
                           None \<Rightarrow> []
                         | Some body \<Rightarrow> [xssIssue ep p (status_of resp) body]))
                 (exchanges t ep
                    (\<lambda>p. JObj [(''input'', JStr p), (''name'', JStr p), (''content'', JStr p)])
                    xssPayloads w))"
    unfolding testXSS_def by (rule payloadLoop_exchanges)
  have i: "map fst (exchanges t ep
              (\<lambda>p. JObj [(''input'', JStr p), (''name'', JStr p), (''content'', JStr p)])
              xssPayloads w) = xssPayloads"
    by (rule exchanges_payloads)
  have j: "map (\<lambda>i. (payload i, vulnerable (response i), severity i)) (fst (testXSS t ep w)) =
        map (\<lambda>p. (p, includes_js body p \<and> \<not> includes_js body ''&lt;script&gt;'',
                   if includes_js body p \<and> \<not> includes_js body ''&lt;script&gt;''
                   then high else low)) xssPayloads"
    if "\<forall>v r. fst (send t v r) = Some \<lparr>status_of = st, text_of = Some body\<rparr>"
    unfolding testXSS_def payloadLoop_constant [OF that]
    by (simp add: xssIssue_def Let_def comp_def)
  from a h i j show ?thesis by blast
qed

text \<open>
  Against the target that answers every request with \<open>No results\<close>, no payload is
  reported vulnerable.
\<close>

theorem xss_classification_witness:
  "map (\<lambda>i. (payload i, vulnerable (response i), severity i))
     (fst (testXSS \<lparr>baseURL = ''http://x.test'', authToken = None, send = noResultsTarget\<rparr>
        postItems ())) =
   map (\<lambda>p. (p, False, low)) xssPayloads"
proof -
  let ?n = "\<lparr>baseURL = ''http://x.test'', authToken = None, send = noResultsTarget\<rparr>"
  have sn: "\<forall>v r. fst (send ?n v r) = Some \<lparr>status_of = 200, text_of = Some ''No results''\<rparr>"
    by (simp add: noResultsTarget_def)
  note inst = xss_classification [of postItems "''x''" 200 "''No results''" ?n "()"]
  from inst sn
  have "map (\<lambda>i. (payload i, vulnerable (response i), severity i)) (fst (testXSS ?n postItems ())) =
        map (\<lambda>p. (p, includes_js ''No results'' p \<and> \<not> includes_js ''No results'' ''&lt;script&gt;'',
                   if includes_js ''No results'' p \<and> \<not> includes_js ''No results'' ''&lt;script&gt;''
                   then high else low)) xssPayloads"
    by blast
  then show ?thesis by (simp add: xssPayloads_def)
qed

section \<open>The oversized-payload probe\<close>

text \<open>
  C6: the oversized-payload probe sends a body whose field \<open>data\<close> is 100,000 times
  the character \<open>x\<close>, to every endpoint whose method is neither \<open>GET\<close> nor
  \<open>DELETE\<close>.  When the request is answered, the probe reports exactly one issue, and
  that issue is vulnerable exactly when the status is 500 or 413, with severity
  \<open>medium\<close> when vulnerable and \<open>low\<close> otherwise.
\<close>

theorem large_payload_classification:
  "method_of ep \<noteq> ''GET'' \<Longrightarrow> method_of ep \<noteq> ''DELETE'' \<Longrightarrow>
   makeRequest t ep (getHeaders t ep) largePayload w = (Some resp, w') \<Longrightarrow>
   (\<exists>s. largePayload = JObj [(''data'', JStr s)] \<and> length s = 100000 \<and> set s = {CHR ''x''}) \<and>
   (\<exists>issue. testLargePayload t ep w = ([issue], w') \<and>
      kind issue = large_payload \<and>
      irStatus (response issue) = status_of resp \<and>
      (vulnerable (response issue) \<longleftrightarrow> status_of resp = 500 \<or> status_of resp = 413) \<and>
      severity issue = (if status_of resp = 500 \<or> status_of resp = 413 then medium else low))"
  by (simp add: testLargePayload_def largePayload_def Let_def)

text \<open>A target that rejects the body with 413 is reported as vulnerable.\<close>

theorem large_payload_classification_witness:
  "\<exists>issue. testLargePayload
       \<lparr>baseURL = ''http://x.test'', authToken = None, send = rejectingTarget\<rparr>
       postItems () = ([issue], ()) \<and>
     irStatus (response issue) = 413 \<and> vulnerable (response issue) \<and> severity issue = medium"
proof -
  let ?t = "\<lparr>baseURL = ''http://x.test'', authToken = None, send = rejectingTarget\<rparr>"
  have m: "method_of postItems \<noteq> ''GET''" "method_of postItems \<noteq> ''DELETE''"
    by (simp_all add: postItems_def)
  have r: "makeRequest ?t postItems (getHeaders ?t postItems) largePayload () =
      (Some \<lparr>status_of = 413, text_of = Some ''Payload Too Large''\<rparr>, ())"
    by (simp add: makeRequest_def rejectingTarget_def postItems_def toLowerCase_def lower_char_def)
  from large_payload_classification [OF m r] show ?thesis by auto
qed

section \<open>The invariant of the vulnerable endpoints\<close>

lemma payloadLoop_all:
  assumes "\<And>p st body. P (mkIssue p st body)"
  shows "list_all P (fst (payloadLoop t ep mkData mkIssue ps w))"
proof (induction ps arbitrary: w)
  case Nil
  then show ?case by simp
next
  case (Cons p ps)
  obtain r w1 where m: "makeRequest t ep (getHeaders t ep) (mkData p) w = (r, w1)"
    by (metis surj_pair)
  obtain found w2 where f: "payloadLoop t ep mkData mkIssue ps w1 = (found, w2)"
    by (metis surj_pair)
  have "list_all P found" using Cons.IH [of w1] f by simp
  then show ?case using m f assms by (simp split: option.splits)
qed

lemma testSQLInjection_issues:
  "list_all (issue_of ep sql_injection) (fst (testSQLInjection t ep w))"
  unfolding testSQLInjection_def
  by (rule payloadLoop_all) (simp add: issue_of_def sqlIssue_def Let_def)

lemma testXSS_issues:
  "list_all (issue_of ep xss) (fst (testXSS t ep w))"
  unfolding testXSS_def
  by (rule payloadLoop_all) (simp add: issue_of_def xssIssue_def Let_def)

lemma testPathTraversal_issues:
  "list_all (issue_of ep path_traversal) (fst (testPathTraversal t ep w))"
  unfolding testPathTraversal_def
  by (rule payloadLoop_all) (simp add: issue_of_def pathIssue_def Let_def)

lemma testLargePayload_issues:
  "list_all (issue_of ep large_payload) (fst (testLargePayload t ep w))"
  by (simp add: testLargePayload_def issue_of_def Let_def split: prod.splits option.splits)

lemma testNegativeValues_issues:
  "list_all (issue_of ep negative_value) (fst (testNegativeValues t ep w))"
  by (simp add: testNegativeValues_def issue_of_def Let_def split: prod.splits option.splits)

lemma testUnauthorizedAccess_issues:
  "list_all (issue_of ep unauthorized) (fst (testUnauthorizedAccess t ep w))"
  by (simp add: testUnauthorizedAccess_def issue_of_def Let_def split: prod.splits option.splits)

lemma set_addVulnerable:
  "set (addVulnerable ks k is) =
     set ks \<union> (if list_ex (\<lambda>i. vulnerable (response i)) is then {k} else {})"
  by (induction "is" arbitrary: ks) (auto simp: set_add_def)

lemma distinct_addVulnerable: "distinct ks \<Longrightarrow> distinct (addVulnerable ks k is)"
  by (induction "is" arbitrary: ks) (auto simp: set_add_def)

lemma flagged_append: "flagged (a @ b) = flagged a \<union> flagged b"
  by (auto simp: flagged_def)

lemma flagged_injection:
  assumes all: "list_all (issue_of ep k) is"
    and k: "k = sql_injection \<or> k = xss \<or> k = path_traversal"
  shows "flagged is = (if list_ex (\<lambda>i. vulnerable (response i)) is then {endpointKey ep} else {})"
proof -
  have key: "siMethod i @ '' '' @ siEndpoint i = endpointKey ep \<and> kind i = k" if "i \<in> set is" for i
    using all that by (simp add: list_all_iff issue_of_def endpointKey_def)
  have sub: "flagged is \<subseteq> {endpointKey ep}"
    using key by (auto simp: flagged_def)
  show ?thesis
  proof (cases "list_ex (\<lambda>i. vulnerable (response i)) is")
    case True
    then obtain i where i: "i \<in> set is" "vulnerable (response i)" by (auto simp: list_ex_iff)
    have "endpointKey ep \<in> flagged is"
      unfolding flagged_def using key [OF i(1)] k i
      by (intro CollectI exI [of _ i]) auto
    with sub True show ?thesis by auto
  next
    case False
    then have "flagged is = {}" by (auto simp: flagged_def list_ex_iff)
    with False show ?thesis by simp
  qed
qed

lemma flagged_other:
  assumes "list_all (issue_of ep k) is" and "k = large_payload \<or> k = negative_value \<or> k = unauthorized"
  shows "flagged is = {}"
  using assms by (auto simp: flagged_def issue_of_def list_all_iff)

lemma endpointLoop_invariant:
  "endpointLoop t eps iss vs w = ((iss', vs'), w') \<Longrightarrow> set vs = flagged iss \<Longrightarrow> distinct vs \<Longrightarrow>
   set vs' = flagged iss' \<and> distinct vs'"
proof (induction eps arbitrary: iss vs w)
  case Nil
  then show ?case by simp
next
  case (Cons ep eps)
  obtain sqlI w1 where s1: "testSQLInjection t ep w = (sqlI, w1)" by (metis surj_pair)
  obtain xssI w2 where s2: "testXSS t ep w1 = (xssI, w2)" by (metis surj_pair)
  obtain pathI w3 where s3: "testPathTraversal t ep w2 = (pathI, w3)" by (metis surj_pair)
  obtain largeI w4 where s4: "testLargePayload t ep w3 = (largeI, w4)" by (metis surj_pair)
  obtain negI w5 where s5: "testNegativeValues t ep w4 = (negI, w5)" by (metis surj_pair)
  obtain authI w6 where
    s6: "(if authRequired ep = Some True then testUnauthorizedAccess t ep w5 else ([], w5)) = (authI, w6)"
    by (metis surj_pair)
  let ?iss1 = "iss @ sqlI @ xssI @ pathI @ largeI @ negI @ authI"
  let ?vs1 = "addVulnerable (addVulnerable (addVulnerable vs (endpointKey ep) sqlI)
           (endpointKey ep) xssI) (endpointKey ep) pathI"
  have step: "endpointLoop t eps ?iss1 ?vs1 w6 = ((iss', vs'), w')"
    using Cons.prems(1) s1 s2 s3 s4 s5 s6 by simp
  have f1: "flagged sqlI = (if list_ex (\<lambda>i. vulnerable (response i)) sqlI then {endpointKey ep} else {})"
    using testSQLInjection_issues [of ep t w] s1 by (intro flagged_injection [of ep sql_injection]) simp_all
  have f2: "flagged xssI = (if list_ex (\<lambda>i. vulnerable (response i)) xssI then {endpointKey ep} else {})"
    using testXSS_issues [of ep t w1] s2 by (intro flagged_injection [of ep xss]) simp_all
  have f3: "flagged pathI = (if list_ex (\<lambda>i. vulnerable (response i)) pathI then {endpointKey ep} else {})"
    using testPathTraversal_issues [of ep t w2] s3
    by (intro flagged_injection [of ep path_traversal]) simp_all
  have f4: "flagged largeI = {}"
    using testLargePayload_issues [of ep t w3] s4 by (intro flagged_other [of ep large_payload]) simp_all
  have f5: "flagged negI = {}"
    using testNegativeValues_issues [of ep t w4] s5
    by (intro flagged_other [of ep negative_value]) simp_all
  have "list_all (issue_of ep unauthorized) authI"
    using testUnauthorizedAccess_issues [of ep t w5] s6 by (auto split: if_splits)
  then have f6: "flagged authI = {}"
    by (intro flagged_other [of ep unauthorized]) simp_all
  have "set ?vs1 = flagged ?iss1"
    using Cons.prems(2) f1 f2 f3 f4 f5 f6
    by (simp only: set_addVulnerable flagged_append) auto
  moreover have "distinct ?vs1"
    using Cons.prems(3) by (intro distinct_addVulnerable)
  ultimately show ?case using Cons.IH [OF step] by blast
qed

text \<open>
  C10: in every result of \<open>testEndpoints\<close>, \<open>vulnerableEndpoints\<close> holds exactly the
  keys \<open>METHOD path\<close> of the issues that are vulnerable and of kind SQL injection, XSS
  or path traversal, each key once; a vulnerable issue of another kind adds nothing.
\<close>

theorem vulnerable_endpoints_invariant:
  "testEndpoints t launches eps w = (Some r, w') \<Longrightarrow>
   set (vulnerableEndpoints r) =
     {siMethod i @ '' '' @ siEndpoint i | i.
        i \<in> set (stIssues r) \<and> vulnerable (response i) \<and>
        (kind i = sql_injection \<or> kind i = xss \<or> kind i = path_traversal)} \<and>
   distinct (vulnerableEndpoints r) \<and> stTotalTests r = length (stIssues r)"
proof -
  assume a: "testEndpoints t launches eps w = (Some r, w')"
  obtain iss vs w1 where l: "endpointLoop t eps [] [] w = ((iss, vs), w1)"
    by (metis surj_pair)
  from a l have r: "r = \<lparr>stTotalTests = length iss, stIssues = iss, vulnerableEndpoints = vs\<rparr>"
    by (auto simp: testEndpoints_def split: if_splits)
  have "set vs = flagged iss \<and> distinct vs"
    by (rule endpointLoop_invariant [OF l]) (simp_all add: flagged_def)
  then show ?thesis using r by (simp add: flagged_def)
qed

lemmas request_eval =
  makeRequest_def getHeaders_def leakyTarget_def postItems_def getFiles_def
  toLowerCase_def lower_char_def Let_def

lemma leaky_post:
  "testSQLInjection \<lparr>baseURL = ''http://x.test'', authToken = None, send = leakyTarget\<rparr>
     postItems () = (map (\<lambda>p. sqlIssue postItems p 500 ''Internal Server Error'') sqlPayloads, ())"
  "testXSS \<lparr>baseURL = ''http://x.test'', authToken = None, send = leakyTarget\<rparr>
     postItems () = (map (\<lambda>p. xssIssue postItems p 500 ''Internal Server Error'') xssPayloads, ())"
  "testPathTraversal \<lparr>baseURL = ''http://x.test'', authToken = None, send = leakyTarget\<rparr>
     postItems () = (map (\<lambda>p. pathIssue postItems p 500 ''Internal Server Error'') pathPayloads, ())"
  "\<exists>i. testLargePayload \<lparr>baseURL = ''http://x.test'', authToken = None, send = leakyTarget\<rparr>
     postItems () = ([i], ()) \<and> kind i = large_payload \<and> vulnerable (response i) \<and>
     siMethod i @ '' '' @ siEndpoint i = ''POST /items''"
  "\<exists>i. testNegativeValues \<lparr>baseURL = ''http://x.test'', authToken = None, send = leakyTarget\<rparr>
     postItems () = ([i], ())"
  by (simp_all add: testSQLInjection_def sqlPayloads_def testXSS_def xssPayloads_def
      testPathTraversal_def pathPayloads_def testLargePayload_def testNegativeValues_def request_eval)

lemma leaky_get:
  "testSQLInjection \<lparr>baseURL = ''http://x.test'', authToken = None, send = leakyTarget\<rparr>
     getFiles () = (map (\<lambda>p. sqlIssue getFiles p 200 ''root:x:0:0:root:/root:/bin/sh'') sqlPayloads, ())"
  "testXSS \<lparr>baseURL = ''http://x.test'', authToken = None, send = leakyTarget\<rparr>
     getFiles () = (map (\<lambda>p. xssIssue getFiles p 200 ''root:x:0:0:root:/root:/bin/sh'') xssPayloads, ())"
  "testPathTraversal \<lparr>baseURL = ''http://x.test'', authToken = None, send = leakyTarget\<rparr>
     getFiles () = (map (\<lambda>p. pathIssue getFiles p 200 ''root:x:0:0:root:/root:/bin/sh'') pathPayloads, ())"
  "testLargePayload \<lparr>baseURL = ''http://x.test'', authToken = None, send = leakyTarget\<rparr>
     getFiles () = ([], ())"
  "testNegativeValues \<lparr>baseURL = ''http://x.test'', authToken = None, send = leakyTarget\<rparr>
     getFiles () = ([], ())"
  by (simp_all add: testSQLInjection_def sqlPayloads_def testXSS_def xssPayloads_def
      testPathTraversal_def pathPayloads_def testLargePayload_def testNegativeValues_def request_eval)

lemma addVulnerable_map:
  "addVulnerable ks k (map f ps) =
     (if list_ex (\<lambda>p. vulnerable (response (f p))) ps then set_add ks k else ks)"
proof (induction ps arbitrary: ks)
  case Nil
  then show ?case by simp
next
  case (Cons p ps)
  then show ?case by (auto simp: set_add_def)
qed

lemma leaky_flags:
  "\<not> list_ex (\<lambda>p. vulnerable (response (sqlIssue ep p 500 ''Internal Server Error''))) sqlPayloads"
  "\<not> list_ex (\<lambda>p. vulnerable (response (xssIssue ep p 500 ''Internal Server Error''))) xssPayloads"
  "\<not> list_ex (\<lambda>p. vulnerable (response (pathIssue ep p 500 ''Internal Server Error''))) pathPayloads"
  "\<not> list_ex (\<lambda>p. vulnerable (response (sqlIssue ep p 200 ''root:x:0:0:root:/root:/bin/sh''))) sqlPayloads"
  "\<not> list_ex (\<lambda>p. vulnerable (response (xssIssue ep p 200 ''root:x:0:0:root:/root:/bin/sh''))) xssPayloads"
  "list_ex (\<lambda>p. vulnerable (response (pathIssue ep p 200 ''root:x:0:0:root:/root:/bin/sh''))) pathPayloads"
  by (simp_all add: sqlIssue_def xssIssue_def pathIssue_def sqlPayloads_def xssPayloads_def
      pathPayloads_def detectSQLInjectionVulnerability_def sqlErrorPatterns_def test_icase_def
      toLowerCase_def lower_char_def)

text \<open>
  A run on two endpoints: \<open>POST /items\<close> is answered with 500, so its
  oversized-payload issue is vulnerable, and the endpoint is not listed; \<open>GET /files\<close>
  leaks a password file, so its path-traversal issues are vulnerable, and it is listed.
\<close>

lemma leaky_run:
  "\<exists>r. testEndpoints \<lparr>baseURL = ''http://x.test'', authToken = None, send = leakyTarget\<rparr>
         True [postItems, getFiles] () = (Some r, ()) \<and>
       vulnerableEndpoints r = [''GET /files''] \<and>
       list_ex (\<lambda>i. kind i = large_payload \<and> vulnerable (response i) \<and>
                   siMethod i @ '' '' @ siEndpoint i = ''POST /items'') (stIssues r)"
proof -
  let ?t = "\<lparr>baseURL = ''http://x.test'', authToken = None, send = leakyTarget\<rparr>"
  obtain i where i: "testLargePayload ?t postItems () = ([i], ())" "kind i = large_payload"
    "vulnerable (response i)" "siMethod i @ '' '' @ siEndpoint i = ''POST /items''"
    using leaky_post(4) by blast
  obtain j where j: "testNegativeValues ?t postItems () = ([j], ())"
    using leaky_post(5) by blast
  have a: "authRequired postItems = None" "authRequired getFiles = None"
    by (simp_all add: postItems_def getFiles_def)
  have k: "endpointKey getFiles = ''GET /files''"
    by (simp add: endpointKey_def getFiles_def)
  show ?thesis
    using i(2,3,4)
    by (simp add: testEndpoints_def leaky_post(1,2,3) leaky_get i(1) j a k addVulnerable_map
        leaky_flags set_add_def)
qed

theorem vulnerable_endpoints_invariant_witness:
  "\<exists>r. testEndpoints \<lparr>baseURL = ''http://x.test'', authToken = None, send = leakyTarget\<rparr>
         True [postItems, getFiles] () = (Some r, ()) \<and>
       vulnerableEndpoints r = [''GET /files''] \<and>
       set (vulnerableEndpoints r) =
         {siMethod i @ '' '' @ siEndpoint i | i.
            i \<in> set (stIssues r) \<and> vulnerable (response i) \<and>
            (kind i = sql_injection \<or> kind i = xss \<or> kind i = path_traversal)} \<and>
       list_ex (\<lambda>i. kind i = large_payload \<and> vulnerable (response i) \<and>
                   siMethod i @ '' '' @ siEndpoint i = ''POST /items'') (stIssues r)"
proof -
  obtain r where
    r: "testEndpoints \<lparr>baseURL = ''http://x.test'', authToken = None, send = leakyTarget\<rparr>
         True [postItems, getFiles] () = (Some r, ())"
    and v: "vulnerableEndpoints r = [''GET /files'']"
    and l: "list_ex (\<lambda>i. kind i = large_payload \<and> vulnerable (response i) \<and>
                   siMethod i @ '' '' @ siEndpoint i = ''POST /items'') (stIssues r)"
    using leaky_run by blast
  from vulnerable_endpoints_invariant [OF r] r v l show ?thesis by blast
qed

section \<open>Discovery from an OpenAPI document: one endpoint per operation\<close>

lemma methodLoop_path: "e \<in> set (methodLoop url p item ms) \<Longrightarrow> path e = p"
  by (induction ms) (auto split: option.splits if_splits)

lemma methodLoop_method:
  "e \<in> set (methodLoop url p item ms) \<Longrightarrow> method_of e \<in> toUpperCase ` set ms"
  by (induction ms) (auto split: option.splits if_splits)

lemma methodLoop_filter:
  assumes "distinct ms" and "inj_on toUpperCase (insert m (set ms))"
  shows "filter (\<lambda>e. path e = p \<and> method_of e = toUpperCase m) (methodLoop url p' item ms) =
     (if p' = p \<and> m \<in> set ms then
        (case getProp item m of
           None \<Rightarrow> []
         | Some op \<Rightarrow>
             if objectLike op
             then [\<lparr>method_of = toUpperCase m, path = p, file_of = url, line = None,
                    authRequired = Some (declaresSecurity op), middleware = None\<rparr>]
             else [])
      else [])"
  using assms
proof (induction ms)
  case Nil
  then show ?case by simp
next
  case (Cons a ms)
  have d: "distinct ms" and a: "a \<notin> set ms" using Cons.prems(1) by auto
  have inj: "inj_on toUpperCase (insert m (set ms))"
    using Cons.prems(2) by (rule inj_on_subset) auto
  note IH = Cons.IH [OF d inj]
  have up: "toUpperCase a = toUpperCase m \<longleftrightarrow> a = m"
    using Cons.prems(2) by (auto simp: inj_on_def)
  show ?case
  proof (cases "a = m")
    case True
    then have "m \<notin> set ms" using a by simp
    then show ?thesis using IH True by (auto split: option.splits)
  next
    case False
    then show ?thesis using IH up by (auto split: option.splits)
  qed
qed

lemma inj_HTTP_METHODS: "inj_on toUpperCase (set HTTP_METHODS)"
  by (simp add: HTTP_METHODS_def toUpperCase_def upper_char_def)

lemma distinct_HTTP_METHODS: "distinct HTTP_METHODS"
  by (simp add: HTTP_METHODS_def)

lemma pathLoop_path: "e \<in> set (pathLoop url ps) \<Longrightarrow> path e \<in> fst ` set ps"
  by (induction url ps rule: pathLoop.induct) (auto split: if_splits dest: methodLoop_path)

lemma pathLoop_filter:
  assumes "distinct (map fst ps)"
  shows "filter (\<lambda>e. path e = p \<and> P e) (pathLoop url ps) =
     (case map_of ps p of
        None \<Rightarrow> []
      | Some item \<Rightarrow>
          if objectLike item \<and> startsWith p ''/''
          then filter (\<lambda>e. path e = p \<and> P e) (methodLoop url p item HTTP_METHODS)
          else [])"
  using assms
proof (induction url ps rule: pathLoop.induct)
  case (1 url)
  then show ?case by simp
next
  case (2 url k item rest)
  have d: "distinct (map fst rest)" and k: "k \<notin> fst ` set rest" using "2.prems" by auto
  have other: "filter (\<lambda>e. path e = p \<and> P e) (methodLoop url k item HTTP_METHODS) = []" if "k \<noteq> p"
    using that by (auto simp: filter_empty_conv dest: methodLoop_path)
  have none: "filter (\<lambda>e. path e = p \<and> P e) (pathLoop url rest) = []" if "k = p"
    using that k by (auto simp: filter_empty_conv dest: pathLoop_path)
  show ?case
  proof (cases "k = p")
    case True
    then show ?thesis using none by simp
  next
    case False
    show ?thesis
    proof (cases "objectLike item")
      case True
      then show ?thesis using False other "2.IH"(2,3) d by (cases "startsWith k ''/''") simp_all
    next
      case no: False
      then show ?thesis using False "2.IH"(1) d by simp
    qed
  qed
qed

lemma getProp_objectLike: "getProp item m = Some op \<Longrightarrow> objectLike item"
  by (cases item) (simp_all add: getProp_def objectLike_def)

text \<open>
  C7, as stated: every path of the \<open>paths\<close> mapping and every one of the seven verbs
  present as a key of its entry gives exactly one endpoint, and a document without a
  \<open>paths\<close> mapping fails.  Three guards of the code say otherwise.  In the first
  document the entry of \<open>/a\<close> has the key \<open>get\<close>, with the value \<open>null\<close>: the
  operation is not an object and nothing is emitted.  In the second the key \<open>a\<close> of
  \<open>paths\<close> does not start with a slash: the entry is skipped.  In the third \<open>paths\<close>
  is an array, not a mapping: the call does not fail, it returns no endpoint.
\<close>

theorem openapi_guards:
  "getProp (JObj [(''get'', JNull)]) ''get'' = Some JNull \<and>
   discoverEndpointsFromOpenApi (\<lambda>s. None) ''http://x.test/openapi.json'' nullOperationDocument = Inr [] \<and>
   discoverEndpointsFromOpenApi (\<lambda>s. None) ''http://x.test/openapi.json'' relativePathDocument = Inr [] \<and>
   discoverEndpointsFromOpenApi (\<lambda>s. None) ''http://x.test/openapi.json'' arrayPathsDocument = Inr []"
  by (simp add: discoverEndpointsFromOpenApi_def nullOperationDocument_def relativePathDocument_def
      arrayPathsDocument_def getProp_def objectLike_def entries_def HTTP_METHODS_def
      decimal.simps [of 0])

text \<open>
  C7, amended: when \<open>paths\<close> is an object, then for every key \<open>p\<close> of it and every
  one of the seven verbs \<open>m\<close>, the endpoints of the result with path \<open>p\<close> and method
  \<open>m\<close> in upper case are: exactly one, when \<open>p\<close> starts with a slash, its entry is an
  object and the value of \<open>m\<close> in that entry is an object or an array; none otherwise.
  The \<open>authRequired\<close> of that endpoint tells whether the operation has a non-empty
  array \<open>security\<close>.  A document object with no \<open>paths\<close>, or whose \<open>paths\<close> is
  neither an object nor an array, fails with the error of invalid paths.  The document
  of the claim gives exactly \<open>GET /a\<close> without and \<open>POST /b\<close> with authentication.
\<close>

theorem openapi_discovery:
  "(getProp doc ''paths'' = Some (JObj ps) \<and> distinct (map fst ps) \<and> m \<in> set HTTP_METHODS \<longrightarrow>
      (\<exists>eps. discoverEndpointsFromOpenApi parse url doc = Inr eps \<and>
         filter (\<lambda>e. path e = p \<and> method_of e = toUpperCase m) eps =
           (case map_of ps p of
              None \<Rightarrow> []
            | Some item \<Rightarrow>
                (case getProp item m of
                   None \<Rightarrow> []
                 | Some op \<Rightarrow>
                     if startsWith p ''/'' \<and> objectLike op
                     then [\<lparr>method_of = toUpperCase m, path = p, file_of = url, line = None,
                            authRequired = Some (declaresSecurity op), middleware = None\<rparr>]
                     else [])))) \<and>
   (doc = JObj kvs \<and> (map_of kvs ''paths'' = None \<or>
        (\<exists>v. map_of kvs ''paths'' = Some v \<and> \<not> objectLike v)) \<longrightarrow>
      discoverEndpointsFromOpenApi parse url doc = Inl InvalidPaths) \<and>
   discoverEndpointsFromOpenApi parse url exampleDocument =
     Inr [\<lparr>method_of = ''GET'', path = ''/a'', file_of = url, line = None,
            authRequired = Some False, middleware = None\<rparr>,
          \<lparr>method_of = ''POST'', path = ''/b'', file_of = url, line = None,
            authRequired = Some True, middleware = None\<rparr>]"
proof (intro conjI impI)
  assume a: "getProp doc ''paths'' = Some (JObj ps) \<and> distinct (map fst ps) \<and> m \<in> set HTTP_METHODS"
  then obtain kvs where doc: "doc = JObj kvs" by (cases doc) (simp_all add: getProp_def)
  have run: "discoverEndpointsFromOpenApi parse url doc = Inr (pathLoop url ps)"
    using a doc by (simp add: discoverEndpointsFromOpenApi_def objectLike_def entries_def)
  have inj: "inj_on toUpperCase (insert m (set HTTP_METHODS))"
    using a inj_HTTP_METHODS by (simp add: insert_absorb)
  have "filter (\<lambda>e. path e = p \<and> method_of e = toUpperCase m) (pathLoop url ps) =
           (case map_of ps p of
              None \<Rightarrow> []
            | Some item \<Rightarrow>
                (case getProp item m of
                   None \<Rightarrow> []
                 | Some op \<Rightarrow>
                     if startsWith p ''/'' \<and> objectLike op
                     then [\<lparr>method_of = toUpperCase m, path = p, file_of = url, line = None,
                            authRequired = Some (declaresSecurity op), middleware = None\<rparr>]
                     else []))"
  proof (cases "map_of ps p")
    case None
    then show ?thesis using a by (simp add: pathLoop_filter)
  next
    case (Some item)
    show ?thesis
    proof (cases "getProp item m")
      case None
      then show ?thesis using a Some
        by (simp add: pathLoop_filter methodLoop_filter [OF distinct_HTTP_METHODS inj])
    next
      case op: (Some op)
      from getProp_objectLike [OF op] show ?thesis using a Some op
        by (simp add: pathLoop_filter methodLoop_filter [OF distinct_HTTP_METHODS inj])
    qed
  qed
  with run show "\<exists>eps. discoverEndpointsFromOpenApi parse url doc = Inr eps \<and>
         filter (\<lambda>e. path e = p \<and> method_of e = toUpperCase m) eps =
           (case map_of ps p of
              None \<Rightarrow> []
            | Some item \<Rightarrow>
                (case getProp item m of
                   None \<Rightarrow> []
                 | Some op \<Rightarrow>
                     if startsWith p ''/'' \<and> objectLike op
                     then [\<lparr>method_of = toUpperCase m, path = p, file_of = url, line = None,
                            authRequired = Some (declaresSecurity op), middleware = None\<rparr>]
                     else []))"
    by blast
next
  assume "doc = JObj kvs \<and> (map_of kvs ''paths'' = None \<or>
        (\<exists>v. map_of kvs ''paths'' = Some v \<and> \<not> objectLike v))"
  then show "discoverEndpointsFromOpenApi parse url doc = Inl InvalidPaths"
    by (auto simp: discoverEndpointsFromOpenApi_def getProp_def)
next
  show "discoverEndpointsFromOpenApi parse url exampleDocument =
     Inr [\<lparr>method_of = ''GET'', path = ''/a'', file_of = url, line = None,
            authRequired = Some False, middleware = None\<rparr>,
          \<lparr>method_of = ''POST'', path = ''/b'', file_of = url, line = None,
            authRequired = Some True, middleware = None\<rparr>]"
    by (simp add: discoverEndpointsFromOpenApi_def exampleDocument_def getProp_def objectLike_def
        entries_def HTTP_METHODS_def declaresSecurity_def toUpperCase_def upper_char_def)
qed

theorem openapi_discovery_witness:
  "getProp exampleDocument ''paths'' =
     Some (JObj [(''/a'', JObj [(''get'', JObj [])]),
                 (''/b'', JObj [(''post'', JObj [(''security'', JArr [JObj []])])])]) \<and>
   (\<exists>eps. discoverEndpointsFromOpenApi (\<lambda>s. None) ''http://x.test/openapi.json'' exampleDocument = Inr eps \<and>
      filter (\<lambda>e. path e = ''/b'' \<and> method_of e = ''POST'') eps =
        [\<lparr>method_of = ''POST'', path = ''/b'', file_of = ''http://x.test/openapi.json'', line = None,
          authRequired = Some True, middleware = None\<rparr>]) \<and>
   discoverEndpointsFromOpenApi (\<lambda>s. None) ''http://x.test/openapi.json'' (JObj [(''openapi'', JStr ''3.0.0'')]) =
     Inl InvalidPaths"
proof -
  let ?ps = "[(''/a'', JObj [(''get'', JObj [])]),
              (''/b'', JObj [(''post'', JObj [(''security'', JArr [JObj []])])])]"
  have g: "getProp exampleDocument ''paths'' = Some (JObj ?ps) \<and> distinct (map fst ?ps) \<and>
      ''post'' \<in> set HTTP_METHODS"
    by (simp add: exampleDocument_def getProp_def HTTP_METHODS_def)
  have n: "JObj [(''openapi'', JStr ''3.0.0'')] = JObj [(''openapi'', JStr ''3.0.0'')] \<and>
      (map_of [(''openapi'', JStr ''3.0.0'')] ''paths'' = None \<or>
        (\<exists>v. map_of [(''openapi'', JStr ''3.0.0'')] ''paths'' = Some v \<and> \<not> objectLike v))"
    by simp
  note first = openapi_discovery
    [of exampleDocument ?ps "''post''" "\<lambda>s. None" "''http://x.test/openapi.json''" "''/b''",
      THEN conjunct1, THEN mp, OF g]
  note second = openapi_discovery
    [of "JObj [(''openapi'', JStr ''3.0.0'')]" _ _ "\<lambda>s. None" "''http://x.test/openapi.json''" _
       "[(''openapi'', JStr ''3.0.0'')]",
      THEN conjunct2, THEN conjunct1, THEN mp, OF n]
  have u: "toUpperCase ''post'' = ''POST''" by (simp add: toUpperCase_def upper_char_def)
  from first have "\<exists>eps. discoverEndpointsFromOpenApi (\<lambda>s. None) ''http://x.test/openapi.json'' exampleDocument = Inr eps \<and>
      filter (\<lambda>e. path e = ''/b'' \<and> method_of e = ''POST'') eps =
        [\<lparr>method_of = ''POST'', path = ''/b'', file_of = ''http://x.test/openapi.json'', line = None,
          authRequired = Some True, middleware = None\<rparr>]"
    unfolding u by (simp add: getProp_def objectLike_def declaresSecurity_def)
  with g second show ?thesis by blast
qed

section \<open>What the route patterns match\<close>

lemma first_verb_sound:
  "first_verb vs t = Some (v, r) \<Longrightarrow> v \<in> set vs \<and> t = v @ r"
  by (induction vs) (auto simp: startsWith_iff split: if_splits)

lemma first_verb_verbs:
  assumes "v \<in> set verbs"
  shows "first_verb verbs (v @ r) = Some (v, r)"
proof -
  from assms consider "v = ''get''" | "v = ''post''" | "v = ''put''" | "v = ''delete''"
    | "v = ''patch''" | "v = ''all''"
    unfolding verbs_def by auto
  then show ?thesis
    by cases (simp_all add: verbs_def)
qed

lemma quote_not_space: "is_quote q \<Longrightarrow> \<not> is_space q"
  by (auto simp: is_quote_def is_space_def squote_def dquote_def bquote_def)

lemma paren_not_space: "\<not> is_space CHR ''(''"
  by (simp add: is_space_def)

lemma match_here_sound:
  assumes "match_here receiver s = Some (verb, routePath, rest)"
  shows "\<exists>ws1 ws2 q1 q2.
     s = receiver @ ''.'' @ verb @ ws1 @ ''('' @ ws2 @ [q1] @ routePath @ [q2] @ rest \<and>
     verb \<in> set verbs \<and> list_all is_space ws1 \<and> list_all is_space ws2 \<and>
     is_quote q1 \<and> is_quote q2 \<and> routePath \<noteq> [] \<and> list_all (\<lambda>x. \<not> is_quote x) routePath"
proof -
  from assms obtain r1 r2 q r3 q' where
    sw: "startsWith s (receiver @ ''.'')"
    and a: "first_verb verbs (drop (length receiver + 1) s) = Some (verb, r1)"
    and b: "dropWhile is_space r1 = CHR ''('' # r2"
    and c: "dropWhile is_space r2 = q # r3"
    and q: "is_quote q"
    and p: "routePath = takeWhile (\<lambda>x. \<not> is_quote x) r3"
    and d: "dropWhile (\<lambda>x. \<not> is_quote x) r3 = q' # rest"
    and ne: "routePath \<noteq> []"
    by (auto simp: match_here_def Let_def split: if_splits option.splits list.splits)
  from sw obtain t where s: "s = (receiver @ ''.'') @ t" unfolding startsWith_iff by blast
  then have "drop (length receiver + 1) s = t" by simp
  with a have v: "verb \<in> set verbs" and t: "t = verb @ r1"
    using first_verb_sound by blast+
  have r1: "r1 = takeWhile is_space r1 @ CHR ''('' # r2"
    using b takeWhile_dropWhile_id [of is_space r1] by simp
  have r2: "r2 = takeWhile is_space r2 @ q # r3"
    using c takeWhile_dropWhile_id [of is_space r2] by simp
  have r3: "r3 = routePath @ q' # rest"
    using d p takeWhile_dropWhile_id [of "\<lambda>x. \<not> is_quote x" r3] by simp
  have q': "is_quote q'"
    using d hd_dropWhile [of "\<lambda>x. \<not> is_quote x" r3] by auto
  have w1: "list_all is_space (takeWhile is_space r1)"
    by (auto simp: list_all_iff dest: set_takeWhileD)
  have w2: "list_all is_space (takeWhile is_space r2)"
    by (auto simp: list_all_iff dest: set_takeWhileD)
  have rp: "list_all (\<lambda>x. \<not> is_quote x) routePath"
    unfolding p by (auto simp: list_all_iff dest: set_takeWhileD)
  have "s = receiver @ ''.'' @ verb @ takeWhile is_space r1 @ ''('' @ takeWhile is_space r2 @ [q] @
      routePath @ [q'] @ rest"
    apply (subst s, subst t, subst r1, subst r2, subst r3) by simp
  with v w1 w2 q q' ne rp show ?thesis by blast
qed

lemma match_here_complete:
  assumes "s = receiver @ ''.'' @ verb @ ws1 @ ''('' @ ws2 @ [q1] @ routePath @ [q2] @ rest"
    and "verb \<in> set verbs" and "list_all is_space ws1" and "list_all is_space ws2"
    and "is_quote q1" and "is_quote q2" and "routePath \<noteq> []"
    and "list_all (\<lambda>x. \<not> is_quote x) routePath"
  shows "match_here receiver s = Some (verb, routePath, rest)"
proof -
  let ?r3 = "routePath @ q2 # rest"
  let ?r2 = "ws2 @ q1 # ?r3"
  let ?r1 = "ws1 @ CHR ''('' # ?r2"
  have s: "s = (receiver @ ''.'') @ verb @ ?r1" using assms(1) by simp
  then have sw: "startsWith s (receiver @ ''.'')" unfolding startsWith_iff by blast
  have dr: "drop (length receiver + 1) s = verb @ ?r1" using s by simp
  have fv: "first_verb verbs (drop (length receiver + 1) s) = Some (verb, ?r1)"
    unfolding dr by (rule first_verb_verbs [OF assms(2)])
  have d1: "dropWhile is_space ?r1 = CHR ''('' # ?r2"
    using assms(3) paren_not_space by (simp add: dropWhile_append3 list_all_iff)
  have d2: "dropWhile is_space ?r2 = q1 # ?r3"
    using assms(4) quote_not_space [OF assms(5)] by (simp add: dropWhile_append3 list_all_iff)
  have t3: "takeWhile (\<lambda>x. \<not> is_quote x) ?r3 = routePath"
    using assms(6,8) by (simp add: takeWhile_tail list_all_iff)
  have d3: "dropWhile (\<lambda>x. \<not> is_quote x) ?r3 = q2 # rest"
    using assms(6,8) by (simp add: dropWhile_append3 list_all_iff)
  show ?thesis
    unfolding match_here_def using sw fv d1 d2 t3 d3 assms(5,7)
    by (simp add: Let_def)
qed

section \<open>Extraction reports every route declaration\<close>

lemma suffixes_append: "suffixes (x @ y) = map (\<lambda>t. t @ y) (suffixes x) @ suffixes y"
  by (induction x) simp_all

lemma length_suffixes: "length (suffixes s) = length s"
  by (induction s) simp_all

lemma match_here_Nil: "match_here receiver [] = None"
proof -
  have "\<not> startsWith [] (receiver @ ''.'')" by (simp add: startsWith_iff)
  then show ?thesis by (simp add: match_here_def)
qed

lemma execAll_none:
  "list_all (\<lambda>t. match_here receiver t = None) (suffixes s) \<Longrightarrow> execAll receiver s = []"
  by (induction s) (simp_all add: execAll.simps)

lemma execAll_leftmost:
  assumes "list_all (\<lambda>t. match_here receiver (t @ m) = None) (suffixes pre)"
    and "match_here receiver m = Some (verb, routePath, rest)"
  shows "execAll receiver (pre @ m) = (verb, routePath) # execAll receiver rest"
  using assms(1)
proof (induction pre)
  case Nil
  obtain c cs where m: "m = c # cs"
    using assms(2) match_here_Nil by (cases m) auto
  show ?case using assms(2) unfolding m by (simp add: execAll.simps)
next
  case (Cons c pre)
  then show ?case by (simp add: execAll.simps)
qed

lemma match_here_split:
  assumes "match_here receiver s = Some (verb, routePath, rest)"
  shows "\<exists>x. s = x @ rest \<and> x \<noteq> []"
proof -
  from match_here_sound [OF assms] obtain ws1 ws2 q1 q2 where
    "s = receiver @ ''.'' @ verb @ ws1 @ ''('' @ ws2 @ [q1] @ routePath @ [q2] @ rest"
    by blast
  then have "s = (receiver @ ''.'' @ verb @ ws1 @ ''('' @ ws2 @ [q1] @ routePath @ [q2]) @ rest"
    by simp
  then show ?thesis by blast
qed

lemma overlapFree_suffix: "overlapFree receiver (x @ y) \<Longrightarrow> overlapFree receiver y"
  by (induction x) simp_all

lemma declarationsAt_Cons:
  "declarationsAt receiver (c # cs) =
     (case match_here receiver (c # cs) of
        None \<Rightarrow> declarationsAt receiver cs
      | Some (verb, routePath, rest) \<Rightarrow> (verb, routePath) # declarationsAt receiver cs)"
  by (simp add: declarationsAt_def List.map_filter_simps split: option.splits)

lemma map_filter_none:
  "list_all (\<lambda>t. f t = None) ts \<Longrightarrow> List.map_filter f ts = []"
  by (induction ts) (simp_all add: List.map_filter_simps)

lemma execAll_positions:
  "overlapFree receiver s \<Longrightarrow> execAll receiver s = declarationsAt receiver s"
proof (induction receiver s rule: execAll.induct)
  case (1 receiver)
  show ?case by (simp add: execAll.simps declarationsAt_def List.map_filter_simps)
next
  case (2 receiver c cs)
  show ?case
  proof (cases "match_here receiver (c # cs)")
    case None
    then show ?thesis using 2 by (simp add: execAll.simps declarationsAt_Cons)
  next
    case (Some triple)
    obtain verb routePath rest where t: "triple = (verb, routePath, rest)" by (cases triple)
    have m: "match_here receiver (c # cs) = Some (verb, routePath, rest)" using Some t by simp
    from match_here_split [OF m] obtain x where x: "c # cs = x @ rest" "x \<noteq> []" by blast
    then obtain x' where x': "x = c # x'" "cs = x' @ rest" by (cases x) auto
    have k: "length cs - length rest = length x'" using x'(2) by simp
    have of_rest: "overlapFree receiver rest"
      using "2.prems" x(1) overlapFree_suffix [of receiver x rest] by simp
    have between: "list_all (\<lambda>t. match_here receiver t = None) (take (length x') (suffixes cs))"
      using "2.prems" m k by simp
    have split: "suffixes cs = map (\<lambda>t. t @ rest) (suffixes x') @ suffixes rest"
      unfolding x'(2) by (rule suffixes_append)
    then have tk: "take (length x') (suffixes cs) = map (\<lambda>t. t @ rest) (suffixes x')"
      by (simp add: length_suffixes)
    have "declarationsAt receiver cs =
        List.map_filter
          (\<lambda>t. map_option (\<lambda>(verb, routePath, rest). (verb, routePath)) (match_here receiver t))
          (map (\<lambda>t. t @ rest) (suffixes x')) @ declarationsAt receiver rest"
      unfolding declarationsAt_def split by (simp add: List.map_filter_def)
    moreover have "List.map_filter
          (\<lambda>t. map_option (\<lambda>(verb, routePath, rest). (verb, routePath)) (match_here receiver t))
          (map (\<lambda>t. t @ rest) (suffixes x')) = []"
      using between unfolding tk by (intro map_filter_none) (simp add: list_all_iff)
    ultimately have d: "declarationsAt receiver cs = declarationsAt receiver rest" by simp
    have "execAll receiver (c # cs) = (verb, routePath) # execAll receiver rest"
      using m by (simp add: execAll.simps)
    also have "execAll receiver rest = declarationsAt receiver rest"
      using "2.IH"(2) [OF Some t [symmetric] refl of_rest] .
    finally show ?thesis using m d by (simp add: declarationsAt_Cons)
  qed
qed

lemma split_lines_nonempty: "split_lines s \<noteq> []"
  by (induction s) (simp_all split: list.splits)

lemma split_lines_join:
  "concat (map (\<lambda>l. l @ [CHR 0x0A]) (split_lines s)) = s @ [CHR 0x0A]"
proof (induction s)
  case Nil
  then show ?case by simp
next
  case (Cons c s)
  then show ?case
    using split_lines_nonempty [of s] by (cases "split_lines s") auto
qed

lemma split_lines_no_newline:
  "list_all (\<lambda>l. CHR 0x0A \<notin> set l) (split_lines s)"
proof (induction s)
  case Nil
  then show ?case by simp
next
  case (Cons c s)
  then show ?case
    using split_lines_nonempty [of s] by (cases "split_lines s") auto
qed

lemma windowLoop_same:
  "method_of (windowLoop lns ep) = method_of ep \<and> path (windowLoop lns ep) = path ep \<and>
   file_of (windowLoop lns ep) = file_of ep \<and> line (windowLoop lns ep) = line ep"
  by (induction lns) (auto split: option.splits)

lemma detectAuthMiddleware_same:
  "map (\<lambda>e. (method_of e, path e)) (detectAuthMiddleware content eps) =
   map (\<lambda>e. (method_of e, path e)) eps"
  by (simp add: detectAuthMiddleware_def Let_def windowLoop_same split: option.splits)

lemma lineLoop_pairs:
  "map (\<lambda>e. (method_of e, path e)) (lineLoop filePath n lns) =
   map (\<lambda>(verb, routePath). (toUpperCase verb, routePath))
     (concat (map (\<lambda>lineText. execAll ''router'' lineText @ execAll ''app'' lineText) lns))"
  by (induction lns arbitrary: n) (simp_all add: lineEndpoints_def case_prod_unfold comp_def)

lemma extractFromFile_pairs:
  assumes "readFile filePath = Inr content"
  shows "\<exists>eps. extractFromFile readFile filePath = Inr eps \<and>
     map (\<lambda>e. (method_of e, path e)) eps =
       map (\<lambda>(verb, routePath). (toUpperCase verb, routePath)) (declarations content)"
  using assms
  by (simp add: extractFromFile_def detectAuthMiddleware_same lineLoop_pairs declarations_def)

lemma extractFromFile_file:
  assumes "readFile filePath = Inr content"
  shows "\<exists>eps. extractFromFile readFile filePath = Inr eps \<and> list_all (\<lambda>e. file_of e = filePath) eps"
proof -
  have l: "list_all (\<lambda>e. file_of e = filePath) (lineLoop filePath n lns)" for n lns
    by (induction lns arbitrary: n) (auto simp: lineEndpoints_def list_all_iff)
  have d: "list_all (\<lambda>e. file_of e = filePath) eps \<Longrightarrow>
      list_all (\<lambda>e. file_of e = filePath) (detectAuthMiddleware c eps)" for c eps
    by (auto simp: detectAuthMiddleware_def Let_def list_all_iff windowLoop_same split: option.splits)
  show ?thesis using assms d [OF l] by (simp add: extractFromFile_def)
qed

text \<open>
  C1, amended: for every source file that can be read, \<open>extractFromFile\<close> returns
  exactly one endpoint for each route declaration of the content, in their order, with
  the verb in upper case, the path and the file; nothing is removed, so a declaration
  written twice gives two endpoints.  The route declarations of the content are those
  of its lines, the lines being the pieces between the line feeds; on each line the
  matches of the router pattern come first and then those of the app pattern.  The
  matches of a pattern on a line are found from left to right: none when no position of
  the line starts a match, and otherwise the leftmost match followed by the matches of
  the text after it.  So when no match starts inside another one, they are exactly the
  matches that start at the positions of the line.  A match is the text \<open>router\<close> or
  \<open>app\<close>, a dot, one of the six names \<open>get\<close>, \<open>post\<close>, \<open>put\<close>, \<open>delete\<close>, \<open>patch\<close>
  and \<open>all\<close>, optional white space, an opening parenthesis, optional white space, a
  quote, a path of one or more characters that are not quotes, and a quote.
\<close>

theorem extraction_reports_every_match:
  "readFile filePath = Inr content \<Longrightarrow>
   (\<exists>eps. extractFromFile readFile filePath = Inr eps \<and>
      length eps = length (declarations content) \<and>
      map (\<lambda>e. (method_of e, path e)) eps =
        map (\<lambda>(verb, routePath). (toUpperCase verb, routePath)) (declarations content) \<and>
      list_all (\<lambda>e. file_of e = filePath) eps) \<and>
   declarations content =
     concat (map (\<lambda>lineText. execAll ''router'' lineText @ execAll ''app'' lineText)
               (split_lines content)) \<and>
   concat (map (\<lambda>lineText. lineText @ [CHR 0x0A]) (split_lines content)) = content @ [CHR 0x0A] \<and>
   list_all (\<lambda>lineText. CHR 0x0A \<notin> set lineText) (split_lines content) \<and>
   (list_all (\<lambda>lineText. overlapFree ''router'' lineText \<and> overlapFree ''app'' lineText)
      (split_lines content) \<longrightarrow>
    declarations content =
      concat (map (\<lambda>lineText. declarationsAt ''router'' lineText @ declarationsAt ''app'' lineText)
                (split_lines content))) \<and>
   (list_all (\<lambda>t. match_here receiver t = None) (suffixes s) \<longrightarrow> execAll receiver s = []) \<and>
   (list_all (\<lambda>t. match_here receiver (t @ m) = None) (suffixes pre) \<and>
    match_here receiver m = Some (verb, routePath, rest) \<longrightarrow>
      execAll receiver (pre @ m) = (verb, routePath) # execAll receiver rest) \<and>
   (overlapFree receiver u \<longrightarrow> execAll receiver u = declarationsAt receiver u) \<and>
   (match_here receiver m = Some (verb, routePath, rest) \<longleftrightarrow>
      (\<exists>ws1 ws2 q1 q2.
         m = receiver @ ''.'' @ verb @ ws1 @ ''('' @ ws2 @ [q1] @ routePath @ [q2] @ rest \<and>
         verb \<in> set verbs \<and> list_all is_space ws1 \<and> list_all is_space ws2 \<and>
         is_quote q1 \<and> is_quote q2 \<and> routePath \<noteq> [] \<and>
         list_all (\<lambda>x. \<not> is_quote x) routePath))"
proof -
  assume r: "readFile filePath = Inr content"
  from extractFromFile_pairs [of readFile filePath content, OF r] obtain eps where
    e: "extractFromFile readFile filePath = Inr eps"
    and p: "map (\<lambda>e. (method_of e, path e)) eps =
        map (\<lambda>(verb, routePath). (toUpperCase verb, routePath)) (declarations content)"
    by blast
  from p have "length (map (\<lambda>e. (method_of e, path e)) eps) =
      length (map (\<lambda>(verb, routePath). (toUpperCase verb, routePath)) (declarations content))"
    by simp
  then have l: "length eps = length (declarations content)" by simp
  from extractFromFile_file [of readFile filePath content, OF r] e
  have f: "list_all (\<lambda>e. file_of e = filePath) eps" by simp
  have d: "declarations content =
     concat (map (\<lambda>lineText. execAll ''router'' lineText @ execAll ''app'' lineText)
               (split_lines content))"
    by (simp add: declarations_def)
  have pos: "declarations content =
      concat (map (\<lambda>lineText. declarationsAt ''router'' lineText @ declarationsAt ''app'' lineText)
                (split_lines content))"
    if "list_all (\<lambda>lineText. overlapFree ''router'' lineText \<and> overlapFree ''app'' lineText)
      (split_lines content)"
  proof -
    have eq: "map (\<lambda>lineText. execAll ''router'' lineText @ execAll ''app'' lineText) (split_lines content) =
        map (\<lambda>lineText. declarationsAt ''router'' lineText @ declarationsAt ''app'' lineText)
          (split_lines content)"
      using that by (intro map_cong refl) (simp add: list_all_iff execAll_positions)
    show ?thesis unfolding d eq by (rule refl)
  qed
  have shape: "match_here receiver m = Some (verb, routePath, rest) \<longleftrightarrow>
      (\<exists>ws1 ws2 q1 q2.
         m = receiver @ ''.'' @ verb @ ws1 @ ''('' @ ws2 @ [q1] @ routePath @ [q2] @ rest \<and>
         verb \<in> set verbs \<and> list_all is_space ws1 \<and> list_all is_space ws2 \<and>
         is_quote q1 \<and> is_quote q2 \<and> routePath \<noteq> [] \<and>
         list_all (\<lambda>x. \<not> is_quote x) routePath)"
    using match_here_sound [of receiver m verb routePath rest]
      match_here_complete [of m receiver verb _ _ _ routePath _ rest]
    by blast
  have first: "\<exists>eps. extractFromFile readFile filePath = Inr eps \<and>
      length eps = length (declarations content) \<and>
      map (\<lambda>e. (method_of e, path e)) eps =
        map (\<lambda>(verb, routePath). (toUpperCase verb, routePath)) (declarations content) \<and>
      list_all (\<lambda>e. file_of e = filePath) eps"
    using e l p f by blast
  show ?thesis
    using first d split_lines_join [of content] split_lines_no_newline [of content] pos
      execAll_none [of receiver s] execAll_leftmost [of receiver m pre verb routePath rest]
      execAll_positions [of receiver u] shape
    by (intro conjI impI) blast+
qed

lemmas extract_eval =
  execAll.simps match_here_def verbs_def
  is_space_def is_quote_def squote_def dquote_def bquote_def Let_def

lemma duplicate_lines:
  "split_lines (firstLine @ [CHR 0x0A] @ secondLine) = [firstLine, secondLine]"
  by (simp add: firstLine_def secondLine_def squote_def dquote_def bquote_def)

lemma duplicate_matches:
  "declarationsAt ''router'' firstLine = [(''get'', ''/a''), (''get'', ''/a'')]"
  "declarationsAt ''app'' firstLine = []"
  "declarationsAt ''router'' secondLine = []"
  "declarationsAt ''app'' secondLine = [(''post'', ''/b'')]"
  by (simp_all add: declarationsAt_def List.map_filter_simps firstLine_def secondLine_def
      match_here_def verbs_def is_space_def is_quote_def squote_def dquote_def bquote_def)

lemma duplicate_overlapFree:
  "overlapFree ''router'' firstLine" "overlapFree ''app'' firstLine"
  "overlapFree ''router'' secondLine" "overlapFree ''app'' secondLine"
  by (simp_all add: firstLine_def secondLine_def
      match_here_def verbs_def is_space_def is_quote_def squote_def dquote_def bquote_def)

lemma leftmost_example:
  "list_all (\<lambda>t. match_here ''router'' (t @ ''router.get('' @ [squote] @ ''/a'' @ [squote] @ '')'') = None)
     (suffixes ''x; '')"
  "match_here ''router'' (''router.get('' @ [squote] @ ''/a'' @ [squote] @ '')'') =
     Some (''get'', ''/a'', '')'')"
  "list_all (\<lambda>t. match_here ''router'' t = None) (suffixes '')'')"
  by (simp_all add: match_here_def verbs_def is_space_def is_quote_def squote_def dquote_def bquote_def)

text \<open>
  A file with the same route twice on one line and a third route on the next line gives
  three endpoints.
\<close>

theorem extraction_reports_every_match_witness:
  "(\<exists>eps. extractFromFile duplicateRoutes ''routes.js'' = Inr eps \<and> length eps = 3 \<and>
     map (\<lambda>e. (method_of e, path e)) eps =
       [(''GET'', ''/a''), (''GET'', ''/a''), (''POST'', ''/b'')]) \<and>
   declarationsAt ''router'' firstLine = [(''get'', ''/a''), (''get'', ''/a'')] \<and>
   execAll ''router'' firstLine = [(''get'', ''/a''), (''get'', ''/a'')] \<and>
   execAll ''router'' (''x; '' @ ''router.get('' @ [squote] @ ''/a'' @ [squote] @ '')'') =
     [(''get'', ''/a'')]"
proof -
  let ?c = "firstLine @ [CHR 0x0A] @ secondLine"
  let ?m = "''router.get('' @ [squote] @ ''/a'' @ [squote] @ '')''"
  have rd: "duplicateRoutes ''routes.js'' = Inr ?c" by (simp add: duplicateRoutes_def)
  have u: "toUpperCase ''get'' = ''GET''" "toUpperCase ''post'' = ''POST''"
    by (simp_all add: toUpperCase_def upper_char_def)
  note inst = extraction_reports_every_match
    [of duplicateRoutes "''routes.js''" ?c "''router''" "'')''" ?m "''x; ''" "''get''" "''/a''"
       "'')''" firstLine, OF rd]
  have free: "list_all (\<lambda>lineText. overlapFree ''router'' lineText \<and> overlapFree ''app'' lineText)
      (split_lines ?c)"
    unfolding duplicate_lines using duplicate_overlapFree by simp
  from inst free have "declarations ?c =
      concat (map (\<lambda>lineText. declarationsAt ''router'' lineText @ declarationsAt ''app'' lineText)
                (split_lines ?c))"
    by blast
  then have decls: "declarations ?c = [(''get'', ''/a''), (''get'', ''/a''), (''post'', ''/b'')]"
    unfolding duplicate_lines by (simp add: duplicate_matches)
  from inst have "\<exists>eps. extractFromFile duplicateRoutes ''routes.js'' = Inr eps \<and>
      length eps = length (declarations ?c) \<and>
      map (\<lambda>e. (method_of e, path e)) eps =
        map (\<lambda>(verb, routePath). (toUpperCase verb, routePath)) (declarations ?c)"
    by blast
  then have 1: "\<exists>eps. extractFromFile duplicateRoutes ''routes.js'' = Inr eps \<and> length eps = 3 \<and>
     map (\<lambda>e. (method_of e, path e)) eps =
       [(''GET'', ''/a''), (''GET'', ''/a''), (''POST'', ''/b'')]"
    unfolding decls by (simp add: u numeral_3_eq_3)
  from inst duplicate_overlapFree(1)
  have "execAll ''router'' firstLine = declarationsAt ''router'' firstLine" by blast
  then have 2: "execAll ''router'' firstLine = [(''get'', ''/a''), (''get'', ''/a'')]"
    by (simp add: duplicate_matches)
  from inst leftmost_example(3) have e: "execAll ''router'' '')'' = []" by blast
  from inst leftmost_example(1,2)
  have "execAll ''router'' (''x; '' @ ?m) = (''get'', ''/a'') # execAll ''router'' '')''"
    by blast
  then have 3: "execAll ''router'' (''x; '' @ ?m) = [(''get'', ''/a'')]"
    using e by simp
  from 1 duplicate_matches(1) 2 3 show ?thesis by blast
qed

text \<open>
  C1, as stated: every match of \<open><identifier>.<httpVerb>(<quoted-path>\<close> gives an
  endpoint.  The file below holds two route declarations of Express, \<open>router.head\<close>
  with the path \<open>/health\<close> and \<open>app.options\<close> with the path \<open>/items\<close>; \<open>HEAD\<close> and
  \<open>OPTIONS\<close> are two of the seven verbs of \<open>HTTP_METHODS\<close>.  The extractor, whose
  patterns list only the names it detects, returns no endpoint for it.
\<close>

theorem head_and_options_not_extracted:
  "extractFromFile headRoutes ''routes.js'' = Inr []"
  by (simp add: extractFromFile_def headRoutes_def detectAuthMiddleware_def lineEndpoints_def
      extract_eval)

section \<open>A file that cannot be read ends the extraction\<close>

lemma extractAll_unreadable:
  "f \<in> set routeFiles \<Longrightarrow> readFile f = Inl msg \<Longrightarrow> \<exists>e. extractAll readFile routeFiles acc = Inl e"
proof (induction routeFiles arbitrary: acc)
  case Nil
  then show ?case by simp
next
  case (Cons g routeFiles)
  show ?case
  proof (cases "extractFromFile readFile g")
    case (Inl e)
    then show ?thesis by simp
  next
    case (Inr eps)
    then have "g \<noteq> f" using Cons.prems(2) by (auto simp: extractFromFile_def)
    then have "f \<in> set routeFiles" using Cons.prems(1) by simp
    from Cons.IH [OF this Cons.prems(2)] Inr show ?thesis by simp
  qed
qed

lemma extractFromFile_readable:
  "\<not> isl (readFile g) \<Longrightarrow> \<exists>eps. extractFromFile readFile g = Inr eps"
  by (cases "readFile g") (simp_all add: extractFromFile_def)

lemma extractAll_readable:
  "list_all (\<lambda>g. \<not> isl (readFile g)) routeFiles \<Longrightarrow>
   extractAll readFile routeFiles acc =
     Inr (acc @ concat (map (\<lambda>g. case extractFromFile readFile g of Inl e \<Rightarrow> [] | Inr eps \<Rightarrow> eps)
                          routeFiles))"
proof (induction routeFiles arbitrary: acc)
  case Nil
  then show ?case by simp
next
  case (Cons g routeFiles)
  from Cons.prems have "\<not> isl (readFile g)" by simp
  from extractFromFile_readable [of readFile g, OF this] obtain eps where
    e: "extractFromFile readFile g = Inr eps" by blast
  from Cons.prems have "list_all (\<lambda>g. \<not> isl (readFile g)) routeFiles" by simp
  from Cons.IH [OF this, of "acc @ eps"] e show ?case by simp
qed

lemma extractAll_first_unreadable:
  assumes "list_all (\<lambda>g. \<not> isl (readFile g)) pre" and "readFile f = Inl msg"
  shows "extractAll readFile (pre @ f # post) acc =
     Inl (ExtractError (''Failed to extract endpoints from '' @ f @ '': '' @ msg))"
  using assms(1)
proof (induction pre arbitrary: acc)
  case Nil
  then show ?case using assms(2) by (simp add: extractFromFile_def)
next
  case (Cons g pre)
  from Cons.prems have "\<not> isl (readFile g)" by simp
  from extractFromFile_readable [of readFile g, OF this] obtain eps where
    e: "extractFromFile readFile g = Inr eps" by blast
  from Cons.prems have "list_all (\<lambda>g. \<not> isl (readFile g)) pre" by simp
  from Cons.IH [OF this, of "acc @ eps"] e show ?case by simp
qed

lemma scan_walk:
  "scanDirectory joinPath dirPath node routeFiles =
     (case fatalCodes node of
        [] \<Rightarrow> Inr (routeFiles @ routeFilesIn joinPath dirPath node)
      | e # es \<Rightarrow> Inl e)"
  "scanEntries joinPath dirPath dirEntries routeFiles =
     (case fatalCodesOfEntries dirEntries of
        [] \<Rightarrow> Inr (routeFiles @ routeFilesOfEntries joinPath dirPath dirEntries)
      | e # es \<Rightarrow> Inl e)"
proof (induction joinPath dirPath node routeFiles and joinPath dirPath dirEntries routeFiles
    rule: scanDirectory_scanEntries.induct)
  case (1 joinPath dirPath routeFiles)
  then show ?case by simp
next
  case (2 joinPath dirPath routeFiles)
  then show ?case by simp
next
  case (3 joinPath dirPath e routeFiles)
  then show ?case by simp
next
  case (4 joinPath dirPath dirEntries routeFiles)
  then show ?case by (simp split: list.splits)
next
  case (5 joinPath dirPath routeFiles)
  then show ?case by simp
next
  case (6 joinPath dirPath name node rest routeFiles)
  show ?case
  proof (cases "shouldSkip name")
    case True
    then show ?thesis using "6.IH"(1) by (simp add: Let_def split: list.splits)
  next
    case ns: False
    show ?thesis
    proof (cases "node \<noteq> RegularFile \<and> node \<noteq> Special")
      case dir: True
      show ?thesis
      proof (cases "fatalCodes node")
        case Nil
        then have sub: "scanDirectory joinPath (joinPath dirPath name) node routeFiles =
            Inr (routeFiles @ routeFilesIn joinPath (joinPath dirPath name) node)"
          using "6.IH"(2) [OF refl ns dir] by simp
        from "6.IH"(3) [OF refl ns dir sub] sub Nil ns dir show ?thesis
          by (simp add: Let_def split: list.splits)
      next
        case (Cons e es)
        then have "scanDirectory joinPath (joinPath dirPath name) node routeFiles = Inl e"
          using "6.IH"(2) [OF refl ns dir] by simp
        then show ?thesis using Cons ns dir by (simp add: Let_def split: list.splits)
      qed
    next
      case nd: False
      show ?thesis
      proof (cases "node = RegularFile \<and> isRouteFile name")
        case True
        then show ?thesis using "6.IH"(4) [OF refl ns nd True] ns nd
          by (simp add: Let_def split: list.splits)
      next
        case False
        then show ?thesis using "6.IH"(5) [OF refl ns nd False] ns nd
          by (auto simp: Let_def split: list.splits)
      qed
    qed
  qed
qed

lemma fatalCodes_fatal:
  "list_all (\<lambda>e. e \<noteq> EACCES \<and> e \<noteq> ENOENT) (fatalCodes node)"
  "list_all (\<lambda>e. e \<noteq> EACCES \<and> e \<noteq> ENOENT) (fatalCodesOfEntries dirEntries)"
  by (induction node and dirEntries rule: fatalCodes_fatalCodesOfEntries.induct) simp_all

lemma scan_walked:
  "scan resolvePath joinPath projectPath rootNode =
     (case fatalCodes rootNode of
        [] \<Rightarrow> Inr (routeFilesIn joinPath (resolvePath projectPath) rootNode)
      | e # es \<Rightarrow> Inl (ScanError e))"
  by (simp add: scan_def scan_walk(1) split: list.splits)

text \<open>
  C3, amended: for a file that cannot be read, \<open>extractFromFile\<close> throws an error
  that names the file, and the loop over the route files ends with the error of the
  first of its files that cannot be read, whatever it has collected before.  For a file
  that can be read and holds no route declaration it returns the empty list, and over
  files that can all be read the loop goes on to the end and returns the endpoints of
  all of them.  The scan walks the tree: it passes over the skipped names, it skips a
  directory that cannot be read with \<open>EACCES\<close> or \<open>ENOENT\<close> and goes on with the entries
  after it, and the first other error of reading a directory, at the root or below it,
  is fatal; these are the only fatal errors.  For a root that cannot be read with
  \<open>EACCES\<close> or \<open>ENOENT\<close> the scan returns no file.  In a directory of files the
  scan returns, in the order of the entries, the joined paths of the route files whose
  names are not skipped, and a directory below the root is scanned as a root at its
  joined path.
\<close>

theorem unreadable_file_aborts_extraction:
  "(readFile f = Inl msg \<longrightarrow>
      extractFromFile readFile f =
        Inl (ExtractError (''Failed to extract endpoints from '' @ f @ '': '' @ msg))) \<and>
   (f \<in> set routeFiles \<and> readFile f = Inl msg \<longrightarrow>
      (\<exists>e. extractAll readFile routeFiles acc = Inl e)) \<and>
   (list_all (\<lambda>g. \<not> isl (readFile g)) pre \<and> readFile f = Inl msg \<longrightarrow>
      extractAll readFile (pre @ f # post) acc =
        Inl (ExtractError (''Failed to extract endpoints from '' @ f @ '': '' @ msg))) \<and>
   (readFile f = Inr content \<and> declarations content = [] \<longrightarrow>
      extractFromFile readFile f = Inr []) \<and>
   (list_all (\<lambda>g. \<not> isl (readFile g)) routeFiles \<longrightarrow>
      extractAll readFile routeFiles acc =
        Inr (acc @ concat (map (\<lambda>g. case extractFromFile readFile g of Inl e \<Rightarrow> [] | Inr eps \<Rightarrow> eps)
                             routeFiles))) \<and>
   scan resolvePath joinPath projectPath rootNode =
     (case fatalCodes rootNode of
        [] \<Rightarrow> Inr (routeFilesIn joinPath (resolvePath projectPath) rootNode)
      | e # es \<Rightarrow> Inl (ScanError e)) \<and>
   list_all (\<lambda>e. e \<noteq> EACCES \<and> e \<noteq> ENOENT) (fatalCodes rootNode) \<and>
   (\<not> shouldSkip name \<and> (code = EACCES \<or> code = ENOENT) \<longrightarrow>
      scan resolvePath joinPath projectPath (Directory (before @ (name, Unreadable code) # after)) =
      scan resolvePath joinPath projectPath (Directory (before @ after))) \<and>
   (fatalCodesOfEntries before = [] \<and> \<not> shouldSkip name \<and> code \<noteq> EACCES \<and> code \<noteq> ENOENT \<longrightarrow>
      scan resolvePath joinPath projectPath (Directory (before @ (name, Unreadable code) # after)) =
      Inl (ScanError code)) \<and>
   (shouldSkip name \<longrightarrow>
      scan resolvePath joinPath projectPath (Directory (before @ (name, rootNode) # after)) =
      scan resolvePath joinPath projectPath (Directory (before @ after))) \<and>
   scan resolvePath joinPath projectPath (Unreadable EACCES) = Inr [] \<and>
   scan resolvePath joinPath projectPath (Unreadable ENOENT) = Inr [] \<and>
   scan resolvePath joinPath projectPath (Unreadable (OtherCode other)) =
     Inl (ScanError (OtherCode other)) \<and>
   (scan resolvePath joinPath projectPath rootNode = Inl (ScanError e) \<longrightarrow>
      e \<noteq> EACCES \<and> e \<noteq> ENOENT) \<and>
   (list_all (\<lambda>(entry, node). node = RegularFile) dirEntries \<longrightarrow>
      scan resolvePath joinPath projectPath (Directory dirEntries) =
        Inr (map (joinPath (resolvePath projectPath))
               (filter (\<lambda>entry. \<not> shouldSkip entry \<and> isRouteFile entry) (map fst dirEntries)))) \<and>
   (\<not> shouldSkip name \<longrightarrow>
      scan resolvePath joinPath projectPath (Directory [(name, Directory dirEntries)]) =
      scan (\<lambda>p. joinPath (resolvePath p) name) joinPath projectPath (Directory dirEntries))"
proof -
  have fc: "fatalCodesOfEntries (xs @ ys) = fatalCodesOfEntries xs @ fatalCodesOfEntries ys" for xs ys
    by (induction xs) auto
  have rf: "routeFilesOfEntries joinPath d (xs @ ys) =
      routeFilesOfEntries joinPath d xs @ routeFilesOfEntries joinPath d ys" for d xs ys
    by (induction xs) auto
  have 1: "extractFromFile readFile f =
        Inl (ExtractError (''Failed to extract endpoints from '' @ f @ '': '' @ msg))"
    if "readFile f = Inl msg"
    using that by (simp add: extractFromFile_def)
  have 2: "\<exists>e. extractAll readFile routeFiles acc = Inl e"
    if "f \<in> set routeFiles \<and> readFile f = Inl msg"
    using that extractAll_unreadable [of f routeFiles readFile msg acc] by blast
  have 3: "extractAll readFile (pre @ f # post) acc =
        Inl (ExtractError (''Failed to extract endpoints from '' @ f @ '': '' @ msg))"
    if "list_all (\<lambda>g. \<not> isl (readFile g)) pre \<and> readFile f = Inl msg"
    using that extractAll_first_unreadable [of readFile pre f msg post acc] by blast
  have 4: "extractFromFile readFile f = Inr []"
    if "readFile f = Inr content \<and> declarations content = []"
    using that extractFromFile_pairs [of readFile f content] by auto
  have 5: "extractAll readFile routeFiles acc =
        Inr (acc @ concat (map (\<lambda>g. case extractFromFile readFile g of Inl e \<Rightarrow> [] | Inr eps \<Rightarrow> eps)
                             routeFiles))"
    if "list_all (\<lambda>g. \<not> isl (readFile g)) routeFiles"
    using that by (rule extractAll_readable)
  have 6: "scan resolvePath joinPath projectPath (Directory (before @ (name, Unreadable code) # after)) =
      scan resolvePath joinPath projectPath (Directory (before @ after))"
    if "\<not> shouldSkip name \<and> (code = EACCES \<or> code = ENOENT)"
    using that by (auto simp: scan_walked fc rf split: list.splits)
  have 7: "scan resolvePath joinPath projectPath (Directory (before @ (name, Unreadable code) # after)) =
      Inl (ScanError code)"
    if "fatalCodesOfEntries before = [] \<and> \<not> shouldSkip name \<and> code \<noteq> EACCES \<and> code \<noteq> ENOENT"
    using that by (simp add: scan_walked fc split: list.splits)
  have 8: "scan resolvePath joinPath projectPath (Directory (before @ (name, rootNode) # after)) =
      scan resolvePath joinPath projectPath (Directory (before @ after))"
    if "shouldSkip name"
    using that by (simp add: scan_walked fc rf split: list.splits)
  have 9: "e \<noteq> EACCES \<and> e \<noteq> ENOENT"
    if "scan resolvePath joinPath projectPath rootNode = Inl (ScanError e)"
  proof -
    from that obtain es where "fatalCodes rootNode = e # es"
      by (auto simp: scan_walked split: list.splits)
    then show ?thesis using fatalCodes_fatal(1) [of rootNode] by simp
  qed
  have 10: "scan resolvePath joinPath projectPath (Unreadable EACCES) = Inr [] \<and>
   scan resolvePath joinPath projectPath (Unreadable ENOENT) = Inr [] \<and>
   scan resolvePath joinPath projectPath (Unreadable (OtherCode other)) =
     Inl (ScanError (OtherCode other))"
    by (simp add: scan_walked split: list.splits)
  have 11: "scan resolvePath joinPath projectPath (Directory dirEntries) =
        Inr (map (joinPath (resolvePath projectPath))
               (filter (\<lambda>entry. \<not> shouldSkip entry \<and> isRouteFile entry) (map fst dirEntries)))"
    if "list_all (\<lambda>(entry, node). node = RegularFile) dirEntries"
  proof -
    from that have "fatalCodesOfEntries dirEntries = [] \<and>
        routeFilesOfEntries joinPath (resolvePath projectPath) dirEntries =
          map (joinPath (resolvePath projectPath))
            (filter (\<lambda>entry. \<not> shouldSkip entry \<and> isRouteFile entry) (map fst dirEntries))"
      by (induction dirEntries) auto
    then show ?thesis by (simp add: scan_walked)
  qed
  have 12: "scan resolvePath joinPath projectPath (Directory [(name, Directory dirEntries)]) =
      scan (\<lambda>p. joinPath (resolvePath p) name) joinPath projectPath (Directory dirEntries)"
    if "\<not> shouldSkip name"
    using that by (simp add: scan_walked split: list.splits)
  show ?thesis
    using 1 2 3 4 5 scan_walked [of resolvePath joinPath projectPath rootNode]
      fatalCodes_fatal(1) [of rootNode] 6 7 8 9 10 11 12
    by (intro conjI impI) blast+
qed

lemmas scan_eval =
  scan_def asGiven_def slashJoin_def lockedProject_def brokenProject_def
  shouldSkip_def skipPatterns_def isRouteFile_def endsWith_def toLowerCase_def lower_char_def
  Let_def

lemma locked_scan:
  "scan asGiven slashJoin ''/project'' lockedProject =
     Inr [''/project/api.js'', ''/project/zroutes.js'']"
  by (simp add: scan_eval)

lemma broken_scan:
  "scan asGiven slashJoin ''/project'' brokenProject = Inl (ScanError (OtherCode ''EIO''))"
  by (simp add: scan_eval)

text \<open>
  C3, as stated: for a file that cannot be read, \<open>extractFromFile\<close> returns the empty
  list, the loop goes on, and only a root that cannot be read is fatal.  In the file
  system below \<open>a.js\<close> cannot be read: \<open>extractFromFile\<close> throws, the loop over
  \<open>a.js\<close> and \<open>b.js\<close> ends with that error, and the endpoint of \<open>b.js\<close> is never
  extracted.  A root of the project that does not exist is not fatal: the scan returns
  the empty list of files.  And a directory below the root whose reading fails with an
  input error is fatal.
\<close>

theorem unreadable_file_throws:
  "extractFromFile lockedRoutes ''a.js'' =
     Inl (ExtractError ''Failed to extract endpoints from a.js: EACCES: permission denied'') \<and>
   (\<exists>eps. extractFromFile lockedRoutes ''b.js'' = Inr eps \<and> length eps = 1) \<and>
   extractAll lockedRoutes [''a.js'', ''b.js''] [] =
     Inl (ExtractError ''Failed to extract endpoints from a.js: EACCES: permission denied'') \<and>
   scan asGiven slashJoin ''/project'' (Unreadable ENOENT) = Inr [] \<and>
   scan asGiven slashJoin ''/project'' brokenProject = Inl (ScanError (OtherCode ''EIO''))"
proof -
  have "extractFromFile lockedRoutes ''a.js'' =
     Inl (ExtractError ''Failed to extract endpoints from a.js: EACCES: permission denied'') \<and>
   (\<exists>eps. extractFromFile lockedRoutes ''b.js'' = Inr eps \<and> length eps = 1) \<and>
   extractAll lockedRoutes [''a.js'', ''b.js''] [] =
     Inl (ExtractError ''Failed to extract endpoints from a.js: EACCES: permission denied'') \<and>
   scan asGiven slashJoin ''/project'' (Unreadable ENOENT) = Inr []"
    by (simp add: extractFromFile_def lockedRoutes_def scan_def detectAuthMiddleware_def
        lineEndpoints_def extract_eval)
  with broken_scan show ?thesis by blast
qed

text \<open>
  The file system with the file that cannot be read, and the two projects: in the first
  the directory that cannot be entered is skipped and the route file after it is
  found, in the second the input error below the root ends the scan.
\<close>

theorem unreadable_file_aborts_extraction_witness:
  "extractFromFile lockedRoutes ''a.js'' =
     Inl (ExtractError (''Failed to extract endpoints from '' @ ''a.js'' @ '': '' @
            ''EACCES: permission denied'')) \<and>
   (\<exists>eps. extractFromFile lockedRoutes ''b.js'' = Inr eps \<and> length eps = 1) \<and>
   (\<exists>e. extractAll lockedRoutes [''b.js'', ''a.js''] [] = Inl e) \<and>
   extractAll lockedRoutes ([''b.js''] @ ''a.js'' # [''c.js'']) [] =
     Inl (ExtractError (''Failed to extract endpoints from '' @ ''a.js'' @ '': '' @
            ''EACCES: permission denied'')) \<and>
   extractFromFile lockedRoutes ''c.js'' = Inr [] \<and>
   (\<exists>eps. extractAll lockedRoutes [''c.js'', ''b.js''] [] = Inr eps \<and> length eps = 1) \<and>
   scan asGiven slashJoin ''/project'' lockedProject =
     Inr [''/project/api.js'', ''/project/zroutes.js''] \<and>
   scan asGiven slashJoin ''/project'' lockedProject =
     scan asGiven slashJoin ''/project''
       (Directory ([(''api.js'', RegularFile)] @ [(''zroutes.js'', RegularFile)])) \<and>
   scan asGiven slashJoin ''/project''
       (Directory ([(''api.js'', RegularFile)] @ (''disk'', Unreadable (OtherCode ''EIO'')) #
                   [(''zroutes.js'', RegularFile)])) =
     Inl (ScanError (OtherCode ''EIO'')) \<and>
   scan asGiven slashJoin ''/project''
       (Directory ([] @ (''node_modules'', Unreadable (OtherCode ''EIO'')) #
                   [(''zroutes.js'', RegularFile)])) =
     scan asGiven slashJoin ''/project'' (Directory ([] @ [(''zroutes.js'', RegularFile)])) \<and>
   scan asGiven slashJoin ''/project'' brokenProject = Inl (ScanError (OtherCode ''EIO'')) \<and>
   OtherCode ''EIO'' \<noteq> EACCES \<and> OtherCode ''EIO'' \<noteq> ENOENT \<and>
   scan asGiven slashJoin ''/project''
       (Directory [(''api.js'', RegularFile), (''notes.md'', RegularFile),
                   (''test-routes.js'', RegularFile), (''zroutes.js'', RegularFile)]) =
     Inr [''/project/api.js'', ''/project/zroutes.js''] \<and>
   scan asGiven slashJoin ''/project''
       (Directory [(''src'', Directory [(''api.js'', RegularFile), (''notes.md'', RegularFile),
                   (''test-routes.js'', RegularFile), (''zroutes.js'', RegularFile)])]) =
     Inr [''/project/src/api.js'', ''/project/src/zroutes.js'']"
proof -
  have a: "lockedRoutes ''a.js'' = Inl ''EACCES: permission denied''"
    by (simp add: lockedRoutes_def)
  have m: "''a.js'' \<in> set [''b.js'', ''a.js''] \<and> lockedRoutes ''a.js'' = Inl ''EACCES: permission denied''"
    using a by simp
  have pre: "list_all (\<lambda>g. \<not> isl (lockedRoutes g)) [''b.js''] \<and>
      lockedRoutes ''a.js'' = Inl ''EACCES: permission denied''"
    by (simp add: lockedRoutes_def)
  have c: "lockedRoutes ''c.js'' = Inr ''module.exports = {}'' \<and> declarations ''module.exports = {}'' = []"
    by (simp add: lockedRoutes_def declarations_def extract_eval)
  have b: "\<exists>eps. extractFromFile lockedRoutes ''b.js'' = Inr eps \<and> length eps = 1"
    by (simp add: extractFromFile_def lockedRoutes_def detectAuthMiddleware_def
        lineEndpoints_def extract_eval)
  have all: "list_all (\<lambda>g. \<not> isl (lockedRoutes g)) [''c.js'', ''b.js'']"
    by (simp add: lockedRoutes_def)
  have skip: "shouldSkip ''node_modules''" "\<not> shouldSkip ''locked''" "\<not> shouldSkip ''disk''"
    by (simp_all add: shouldSkip_def skipPatterns_def)
  have before: "fatalCodesOfEntries [(''api.js'', RegularFile)] = []" by simp
  note unreadable = unreadable_file_aborts_extraction
    [of lockedRoutes "''a.js''" "''EACCES: permission denied''" "[''b.js'', ''a.js'']" "[]"
       "[''b.js'']" "[''c.js'']" "''module.exports = {}''" asGiven slashJoin "''/project''"
       brokenProject "''locked''" EACCES "[(''api.js'', RegularFile)]"
       "[(''zroutes.js'', RegularFile)]" "''EIO''" "OtherCode ''EIO''"]
  note empty = unreadable_file_aborts_extraction
    [of lockedRoutes "''c.js''" "''EACCES: permission denied''" "[''c.js'', ''b.js'']" "[]"
       "[''b.js'']" "[''c.js'']" "''module.exports = {}''" asGiven slashJoin "''/project''"
       "Unreadable (OtherCode ''EIO'')" "''node_modules''" "OtherCode ''EIO''" "[]"
       "[(''zroutes.js'', RegularFile)]" "''EIO''" "OtherCode ''EIO''"]
  note fatal = unreadable_file_aborts_extraction
    [of lockedRoutes "''c.js''" "''EACCES: permission denied''" "[''c.js'', ''b.js'']" "[]"
       "[''b.js'']" "[''c.js'']" "''module.exports = {}''" asGiven slashJoin "''/project''"
       brokenProject "''disk''" "OtherCode ''EIO''" "[(''api.js'', RegularFile)]"
       "[(''zroutes.js'', RegularFile)]" "''EIO''" "OtherCode ''EIO''"]
  from unreadable a have 1: "extractFromFile lockedRoutes ''a.js'' =
     Inl (ExtractError (''Failed to extract endpoints from '' @ ''a.js'' @ '': '' @
            ''EACCES: permission denied''))"
    by blast
  from unreadable m have 2: "\<exists>e. extractAll lockedRoutes [''b.js'', ''a.js''] [] = Inl e"
    by blast
  from unreadable pre have 3: "extractAll lockedRoutes ([''b.js''] @ ''a.js'' # [''c.js'']) [] =
     Inl (ExtractError (''Failed to extract endpoints from '' @ ''a.js'' @ '': '' @
            ''EACCES: permission denied''))"
    by blast
  from empty c have 4: "extractFromFile lockedRoutes ''c.js'' = Inr []"
    by blast
  from empty all have "extractAll lockedRoutes [''c.js'', ''b.js''] [] =
      Inr ([] @ concat (map (\<lambda>g. case extractFromFile lockedRoutes g of Inl e \<Rightarrow> [] | Inr eps \<Rightarrow> eps)
                          [''c.js'', ''b.js'']))"
    by blast
  then have 5: "\<exists>eps. extractAll lockedRoutes [''c.js'', ''b.js''] [] = Inr eps \<and> length eps = 1"
    using 4 b by auto
  from unreadable skip(2) have 6: "scan asGiven slashJoin ''/project''
       (Directory ([(''api.js'', RegularFile)] @ (''locked'', Unreadable EACCES) #
                   [(''zroutes.js'', RegularFile)])) =
     scan asGiven slashJoin ''/project''
       (Directory ([(''api.js'', RegularFile)] @ [(''zroutes.js'', RegularFile)]))"
    by blast
  have lp: "lockedProject = Directory ([(''api.js'', RegularFile)] @ (''locked'', Unreadable EACCES) #
                   [(''zroutes.js'', RegularFile)])"
    by (simp add: lockedProject_def)
  from fatal skip(3) before have 7: "scan asGiven slashJoin ''/project''
       (Directory ([(''api.js'', RegularFile)] @ (''disk'', Unreadable (OtherCode ''EIO'')) #
                   [(''zroutes.js'', RegularFile)])) =
     Inl (ScanError (OtherCode ''EIO''))"
    by blast
  from empty skip(1) have 8: "scan asGiven slashJoin ''/project''
       (Directory ([] @ (''node_modules'', Unreadable (OtherCode ''EIO'')) #
                   [(''zroutes.js'', RegularFile)])) =
     scan asGiven slashJoin ''/project'' (Directory ([] @ [(''zroutes.js'', RegularFile)]))"
    by blast
  from unreadable broken_scan have 9: "OtherCode ''EIO'' \<noteq> EACCES \<and> OtherCode ''EIO'' \<noteq> ENOENT"
    by blast
  note flat = unreadable_file_aborts_extraction
    [of lockedRoutes "''c.js''" "''EACCES: permission denied''" "[''c.js'', ''b.js'']" "[]"
       "[''b.js'']" "[''c.js'']" "''module.exports = {}''" asGiven slashJoin "''/project''"
       brokenProject "''src''" "OtherCode ''EIO''" "[(''api.js'', RegularFile)]"
       "[(''zroutes.js'', RegularFile)]" "''EIO''" "OtherCode ''EIO''"
       "[(''api.js'', RegularFile), (''notes.md'', RegularFile),
         (''test-routes.js'', RegularFile), (''zroutes.js'', RegularFile)]"]
  note nested = unreadable_file_aborts_extraction
    [of lockedRoutes "''c.js''" "''EACCES: permission denied''" "[''c.js'', ''b.js'']" "[]"
       "[''b.js'']" "[''c.js'']" "''module.exports = {}''" "\<lambda>p. slashJoin (asGiven p) ''src''"
       slashJoin "''/project''"
       brokenProject "''src''" "OtherCode ''EIO''" "[(''api.js'', RegularFile)]"
       "[(''zroutes.js'', RegularFile)]" "''EIO''" "OtherCode ''EIO''"
       "[(''api.js'', RegularFile), (''notes.md'', RegularFile),
         (''test-routes.js'', RegularFile), (''zroutes.js'', RegularFile)]"]
  have files: "list_all (\<lambda>(entry, node). node = RegularFile)
      [(''api.js'', RegularFile), (''notes.md'', RegularFile),
       (''test-routes.js'', RegularFile), (''zroutes.js'', RegularFile)]"
    by simp
  have names: "filter (\<lambda>entry. \<not> shouldSkip entry \<and> isRouteFile entry)
      (map fst [(''api.js'', RegularFile), (''notes.md'', RegularFile),
       (''test-routes.js'', RegularFile), (''zroutes.js'', RegularFile)]) =
      [''api.js'', ''zroutes.js'']"
    by (simp add: scan_eval)
  from flat files have "scan asGiven slashJoin ''/project''
       (Directory [(''api.js'', RegularFile), (''notes.md'', RegularFile),
                   (''test-routes.js'', RegularFile), (''zroutes.js'', RegularFile)]) =
     Inr (map (slashJoin (asGiven ''/project''))
            (filter (\<lambda>entry. \<not> shouldSkip entry \<and> isRouteFile entry)
              (map fst [(''api.js'', RegularFile), (''notes.md'', RegularFile),
                (''test-routes.js'', RegularFile), (''zroutes.js'', RegularFile)])))"
    by blast
  then have 10: "scan asGiven slashJoin ''/project''
       (Directory [(''api.js'', RegularFile), (''notes.md'', RegularFile),
                   (''test-routes.js'', RegularFile), (''zroutes.js'', RegularFile)]) =
     Inr [''/project/api.js'', ''/project/zroutes.js'']"
    unfolding names by (simp add: asGiven_def slashJoin_def)
  from nested files have "scan (\<lambda>p. slashJoin (asGiven p) ''src'') slashJoin ''/project''
       (Directory [(''api.js'', RegularFile), (''notes.md'', RegularFile),
                   (''test-routes.js'', RegularFile), (''zroutes.js'', RegularFile)]) =
     Inr (map (slashJoin (slashJoin (asGiven ''/project'') ''src''))
            (filter (\<lambda>entry. \<not> shouldSkip entry \<and> isRouteFile entry)
              (map fst [(''api.js'', RegularFile), (''notes.md'', RegularFile),
                (''test-routes.js'', RegularFile), (''zroutes.js'', RegularFile)])))"
    by blast
  then have inner: "scan (\<lambda>p. slashJoin (asGiven p) ''src'') slashJoin ''/project''
       (Directory [(''api.js'', RegularFile), (''notes.md'', RegularFile),
                   (''test-routes.js'', RegularFile), (''zroutes.js'', RegularFile)]) =
     Inr [''/project/src/api.js'', ''/project/src/zroutes.js'']"
    unfolding names by (simp add: asGiven_def slashJoin_def)
  have src: "\<not> shouldSkip ''src''" by (simp add: shouldSkip_def skipPatterns_def)
  from flat src have "scan asGiven slashJoin ''/project''
       (Directory [(''src'', Directory [(''api.js'', RegularFile), (''notes.md'', RegularFile),
                   (''test-routes.js'', RegularFile), (''zroutes.js'', RegularFile)])]) =
     scan (\<lambda>p. slashJoin (asGiven p) ''src'') slashJoin ''/project''
       (Directory [(''api.js'', RegularFile), (''notes.md'', RegularFile),
                   (''test-routes.js'', RegularFile), (''zroutes.js'', RegularFile)])"
    by blast
  with inner have 11: "scan asGiven slashJoin ''/project''
       (Directory [(''src'', Directory [(''api.js'', RegularFile), (''notes.md'', RegularFile),
                   (''test-routes.js'', RegularFile), (''zroutes.js'', RegularFile)])]) =
     Inr [''/project/src/api.js'', ''/project/src/zroutes.js'']"
    by simp
  from 1 b 2 3 4 5 locked_scan 6 [folded lp] 7 8 broken_scan 9 10 11 show ?thesis by blast
qed

end
